theory Spec2Isabelle
  imports Complex_Main "HOL-Library.AList"
begin

section \<open>Exceptions and results\<close>

text \<open>
  The C++ sources signal failure by throwing. An exception is a value of \<open>error\<close>; a
  function that may throw returns \<open>error + 'a\<close> with \<open>Inl\<close> for the throw.
\<close>

datatype error =
    Runtime_error string
  | Out_of_range string
  | Invalid_argument string
  | Bad_variant_access

text \<open>
  The recursive-descent parser recurses on the input it has left. Its model carries a
  step budget; \<open>Out_of_fuel\<close> is the budget running out and is kept apart from the
  exceptions of the program.
\<close>

datatype 'a outcome = Done 'a | Throw error | Out_of_fuel

definition obind :: "'a outcome \<Rightarrow> ('a \<Rightarrow> 'b outcome) \<Rightarrow> 'b outcome" where
  "obind m f = (case m of Done x \<Rightarrow> f x | Throw e \<Rightarrow> Throw e | Out_of_fuel \<Rightarrow> Out_of_fuel)"

section \<open>Strings\<close>

text \<open>\<open>std::string\<close> is a byte string: a \<open>char list\<close>.\<close>

definition starts_with :: "string \<Rightarrow> string \<Rightarrow> bool" where
  "starts_with str pre = (length str \<ge> length pre \<and> take (length pre) str = pre)"

definition ends_with :: "string \<Rightarrow> string \<Rightarrow> bool" where
  "ends_with str suffix =
     (length str \<ge> length suffix \<and> drop (length str - length suffix) str = suffix)"

text \<open>\<open>str.find(sub) != npos\<close>: \<open>sub\<close> occurs in \<open>str\<close> as a contiguous block.\<close>

fun contains :: "string \<Rightarrow> string \<Rightarrow> bool" where
  "contains [] sub = (sub = [])"
| "contains (c # cs) sub = (take (length sub) (c # cs) = sub \<or> contains cs sub)"

text \<open>\<open>::tolower\<close> in the C locale: only \<open>A\<close>..\<open>Z\<close> change.\<close>

definition byte :: "char \<Rightarrow> nat" where
  "byte c = of_char c"

definition tolower :: "char \<Rightarrow> char" where
  "tolower c =
     (if 65 \<le> byte c \<and> byte c \<le> 90 then ''abcdefghijklmnopqrstuvwxyz'' ! (byte c - 65) else c)"

definition is_digit :: "char \<Rightarrow> bool" where
  "is_digit c = (48 \<le> byte c \<and> byte c \<le> 57)"

definition digit_value :: "char \<Rightarrow> nat" where
  "digit_value c = byte c - 48"

definition digits_value :: "string \<Rightarrow> nat" where
  "digits_value ds = foldl (\<lambda>a c. 10 * a + digit_value c) 0 ds"

text \<open>
  \<open>std::to_string\<close> of an unsigned value: its decimal digits. \<open>digit_char\<close> is the digit
  for a value below 16 (lower-case above 9, as \<open>std::hex\<close> prints).
\<close>

definition digit_char :: "nat \<Rightarrow> char" where
  "digit_char d = ''0123456789abcdef'' ! d"

fun to_string_nat :: "nat \<Rightarrow> string" where
  "to_string_nat n =
     (if n < 10 then [digit_char n]
      else to_string_nat (n div 10) @ [digit_char (n mod 10)])"

declare to_string_nat.simps [simp del]

definition to_string :: "int \<Rightarrow> string" where
  "to_string i = (if i < 0 then CHR ''-'' # to_string_nat (nat (- i)) else to_string_nat (nat i))"

section \<open>JSON values (json\_accelerator.hpp)\<close>

text \<open>
  \<open>JsonValue\<close> wraps a variant over null, bool, double, string, \<open>std::vector<JsonValue>\<close>
  and \<open>std::unordered_map<std::string, JsonValue>\<close>.

  A number is kept as the exact rational it denotes; rounding to binary64 is outside the
  model.

  \<open>std::unordered_map\<close> is a finite map whose iteration order the C++ standard leaves
  to the implementation (hashing and bucket layout). The model keeps the members as an
  association list with distinct keys in order of first insertion, which is what the
  sequence of \<open>operator[]\<close> calls determines, and reads the iteration order through a
  function \<open>ord\<close> from the keys in insertion order to the keys in iteration order
  (\<open>umap_iterate\<close>). The function is a parameter of everything that iterates.
\<close>

datatype JsonValue =
    JsonNull
  | JsonBool bool
  | JsonNumber rat
  | JsonString string
  | JsonArray "JsonValue list"
  | JsonObject "(string \<times> JsonValue) list"

type_synonym 'v umap = "(string \<times> 'v) list"

text \<open>\<open>m[key] = v\<close>: overwrite the member in place, or add it.\<close>

definition umap_assign :: "'v umap \<Rightarrow> string \<Rightarrow> 'v \<Rightarrow> 'v umap" where
  "umap_assign m key v = AList.update key v m"

text \<open>\<open>m[key]\<close> read as a reference: a missing key is inserted with a default value.\<close>

definition umap_subscript :: "'v \<Rightarrow> 'v umap \<Rightarrow> string \<Rightarrow> 'v umap \<times> 'v" where
  "umap_subscript dflt m key =
     (case map_of m key of
        Some v \<Rightarrow> (m, v)
      | None \<Rightarrow> (m @ [(key, dflt)], dflt))"

definition umap_iterate :: "(string list \<Rightarrow> string list) \<Rightarrow> 'v umap \<Rightarrow> 'v umap" where
  "umap_iterate ord m =
     List.map_filter (\<lambda>k. map_option (Pair k) (map_of m k)) (ord (map fst m))"

text \<open>
  \<open>JsonValue::operator[](const std::string&)\<close>, the mutating overload. The result is the
  object the value holds after the call together with the member the returned reference
  denotes.
\<close>

definition JsonValue_subscript ::
  "JsonValue \<Rightarrow> string \<Rightarrow> error + ((string \<times> JsonValue) list \<times> JsonValue)" where
  "JsonValue_subscript v key =
     (case v of
        JsonObject obj \<Rightarrow> Inr (umap_subscript JsonNull obj key)
      | JsonNull \<Rightarrow> Inr (umap_subscript JsonNull [] key)
      | _ \<Rightarrow> Inl (Runtime_error ''JsonValue is not an object''))"

text \<open>\<open>JsonValue::set(key, value)\<close>; the result is the value after the call.\<close>

definition JsonValue_set :: "JsonValue \<Rightarrow> string \<Rightarrow> JsonValue \<Rightarrow> error + JsonValue" where
  "JsonValue_set v key val =
     (case v of
        JsonObject obj \<Rightarrow> Inr (JsonObject (umap_assign obj key val))
      | JsonNull \<Rightarrow> Inr (JsonObject (umap_assign [] key val))
      | _ \<Rightarrow> Inl (Runtime_error ''JsonValue is not an object''))"

text \<open>
  A chain of index assignments \<open>v[k1][k2]...[kn] = x\<close>: each \<open>operator[]\<close> is applied to
  the reference the previous one returned, and \<open>x\<close> is stored through the last one.
  The result is \<open>v\<close> after the statement.
\<close>

fun assign_chain :: "JsonValue \<Rightarrow> string list \<Rightarrow> JsonValue \<Rightarrow> error + JsonValue" where
  "assign_chain v [] x = Inr x"
| "assign_chain v (k # ks) x =
     (case JsonValue_subscript v k of
        Inl e \<Rightarrow> Inl e
      | Inr (obj, member) \<Rightarrow>
          (case assign_chain member ks x of
             Inl e \<Rightarrow> Inl e
           | Inr member' \<Rightarrow> Inr (JsonObject (umap_assign obj k member'))))"

text \<open>A sequence of statements \<open>v.set(k1, x1); ...; v.set(kn, xn)\<close>.\<close>

fun set_all :: "JsonValue \<Rightarrow> (string \<times> JsonValue) list \<Rightarrow> error + JsonValue" where
  "set_all v [] = Inr v"
| "set_all v ((k, x) # rest) =
     (case JsonValue_set v k x of Inl e \<Rightarrow> Inl e | Inr v' \<Rightarrow> set_all v' rest)"

text \<open>Reading back along a path of keys (the const \<open>operator[]\<close>, which never inserts).\<close>

fun lookup_chain :: "JsonValue \<Rightarrow> string list \<Rightarrow> JsonValue option" where
  "lookup_chain v [] = Some v"
| "lookup_chain (JsonObject obj) (k # ks) =
     (case map_of obj k of None \<Rightarrow> None | Some m \<Rightarrow> lookup_chain m ks)"
| "lookup_chain _ (k # ks) = None"

section \<open>JSON parser (json\_accelerator.cpp)\<close>

record ParserConfig =
  allow_comments :: bool
  allow_trailing_commas :: bool
  strict_mode :: bool
  max_depth :: nat
  max_string_length :: nat
  use_simd :: bool

text \<open>The member initialisers of \<open>JsonParser::Config\<close>.\<close>

definition default_ParserConfig :: ParserConfig where
  "default_ParserConfig =
     \<lparr>allow_comments = False, allow_trailing_commas = False, strict_mode = True,
      max_depth = 100, max_string_length = 1024 * 1024, use_simd = True\<rparr>"

record ParserStats =
  documents_parsed :: nat
  total_parse_time_ns :: nat
  bytes_parsed :: nat
  parse_errors :: nat

definition lift :: "error + 'a \<Rightarrow> 'a outcome" where
  "lift r = (case r of Inl e \<Rightarrow> Throw e | Inr x \<Rightarrow> Done x)"

definition quoted :: "char \<Rightarrow> string" where
  "quoted c = [CHR 0x27, c, CHR 0x27]"

definition is_whitespace :: "char \<Rightarrow> bool" where
  "is_whitespace c = (c = CHR '' '' \<or> c = CHR 0x09 \<or> c = CHR 0x0A \<or> c = CHR 0x0D)"

definition skip_whitespace_simd :: "string \<Rightarrow> string" where
  "skip_whitespace_simd s = dropWhile is_whitespace s"

text \<open>
  The inner loop of a block comment: it stops behind the first \<open>*/\<close>, or one character
  before the end when there is none.
\<close>

fun skip_block_comment :: "string \<Rightarrow> string" where
  "skip_block_comment (a # b # r) =
     (if a = CHR ''*'' \<and> b = CHR ''/'' then r else skip_block_comment (b # r))"
| "skip_block_comment r = r"

fun skip_whitespace :: "ParserConfig \<Rightarrow> nat \<Rightarrow> string \<Rightarrow> string outcome"
  and skip_comments :: "ParserConfig \<Rightarrow> nat \<Rightarrow> string \<Rightarrow> string outcome" where
  "skip_whitespace cfg 0 s = Out_of_fuel"
| "skip_whitespace cfg (Suc n) s =
     (if use_simd cfg then Done (skip_whitespace_simd s)
      else let s1 = dropWhile is_whitespace s
           in if allow_comments cfg then skip_comments cfg n s1 else Done s1)"
| "skip_comments cfg 0 s = Out_of_fuel"
| "skip_comments cfg (Suc n) s =
     (case s of
        c0 # c1 # r \<Rightarrow>
          if c0 = CHR ''/'' \<and> c1 = CHR ''/'' then
            obind (skip_whitespace cfg n (dropWhile (\<lambda>c. c \<noteq> CHR 0x0A) r))
              (\<lambda>s2. skip_comments cfg n s2)
          else if c0 = CHR ''/'' \<and> c1 = CHR ''*'' then
            obind (skip_whitespace cfg n (skip_block_comment r))
              (\<lambda>s2. skip_comments cfg n s2)
          else Done s
      | _ \<Rightarrow> Done s)"

definition cons_result :: "char \<Rightarrow> error + string \<Rightarrow> error + string" where
  "cons_result c r = (case r of Inl e \<Rightarrow> Inl e | Inr t \<Rightarrow> Inr (c # t))"

definition unescape :: "char \<Rightarrow> char option" where
  "unescape e =
     (if e = CHR 0x22 then Some (CHR 0x22)
      else if e = CHR 0x5C then Some (CHR 0x5C)
      else if e = CHR ''/'' then Some (CHR ''/'')
      else if e = CHR ''b'' then Some (CHR 0x08)
      else if e = CHR ''f'' then Some (CHR 0x0C)
      else if e = CHR ''n'' then Some (CHR 0x0A)
      else if e = CHR ''r'' then Some (CHR 0x0D)
      else if e = CHR ''t'' then Some (CHR 0x09)
      else None)"

fun decode_string :: "string \<Rightarrow> error + string" where
  "decode_string [] = Inr []"
| "decode_string (c # cs) =
     (if c = CHR 0x5C then
        (case cs of
           [] \<Rightarrow> Inl (Runtime_error ''Unterminated escape sequence'')
         | e # r \<Rightarrow>
             if e = CHR ''u'' then
               (if length r < 4 then Inl (Runtime_error ''Invalid unicode escape'')
                else cons_result (CHR ''?'') (decode_string (drop 4 r)))
             else
               (case unescape e of
                  Some d \<Rightarrow> cons_result d (decode_string r)
                | None \<Rightarrow> Inl (Runtime_error ''Invalid escape character'')))
      else cons_result c (decode_string cs))"

text \<open>
  The scan of \<open>parse_string\<close> for the closing quote: the raw text between the quotes and
  the input behind the closing quote.
\<close>

fun find_string_end :: "string \<Rightarrow> error + (string \<times> string)" where
  "find_string_end [] = Inl (Runtime_error ''Unterminated string'')"
| "find_string_end (c # cs) =
     (if c = CHR 0x22 then Inr ([], cs)
      else if c = CHR 0x5C then
        (case cs of
           [] \<Rightarrow> Inl (Runtime_error ''Unterminated string escape'')
         | e # r \<Rightarrow>
             (case find_string_end r of
                Inl err \<Rightarrow> Inl err
              | Inr (raw, rest) \<Rightarrow> Inr (c # e # raw, rest)))
      else
        (case find_string_end cs of
           Inl err \<Rightarrow> Inl err
         | Inr (raw, rest) \<Rightarrow> Inr (c # raw, rest)))"

definition parse_string :: "string \<Rightarrow> error + (JsonValue \<times> string)" where
  "parse_string s =
     (case s of
        [] \<Rightarrow> Inl (Runtime_error (''Expected '' @ quoted (CHR 0x22)))
      | c # cs \<Rightarrow>
          if c \<noteq> CHR 0x22 then Inl (Runtime_error (''Expected '' @ quoted (CHR 0x22)))
          else
            (case find_string_end cs of
               Inl e \<Rightarrow> Inl e
             | Inr (raw, rest) \<Rightarrow>
                 (case decode_string raw of
                    Inl e \<Rightarrow> Inl e
                  | Inr str \<Rightarrow> Inr (JsonString str, rest))))"

definition as_string :: "JsonValue \<Rightarrow> error + string" where
  "as_string v = (case v of JsonString str \<Rightarrow> Inr str | _ \<Rightarrow> Inl Bad_variant_access)"

text \<open>
  \<open>strtod\<close> as glibc computes it for a decimal value \<open>v\<close> in the default rounding mode:
  the binary64 number nearest to \<open>v\<close>, ties to the even significand, and the error
  \<open>ERANGE\<close> (\<open>None\<close>) on overflow and on an inexact result that is still below the least
  normal number \<open>2^-1022\<close> after rounding to 53 bits. \<open>binary_exponent x\<close> is, for a
  positive \<open>x\<close>, the \<open>e\<close> with \<open>2^e \<le> x < 2^(e+1)\<close>; \<open>round_to_grid e x\<close> is the multiple of
  \<open>2^e\<close> nearest to \<open>x\<close>. The sign of a zero is not kept: \<open>serialize_number\<close> prints
  both zeros as \<open>0\<close>.
\<close>

fun bit_length :: "nat \<Rightarrow> nat" where
  "bit_length n = (if n = 0 then 0 else Suc (bit_length (n div 2)))"

declare bit_length.simps [simp del]

definition pow2 :: "int \<Rightarrow> rat" where
  "pow2 e = (if 0 \<le> e then 2 ^ nat e else 1 / 2 ^ nat (- e))"

definition binary_exponent :: "rat \<Rightarrow> int" where
  "binary_exponent x =
     (let (p, q) = quotient_of x;
          d = int (bit_length (nat p)) - int (bit_length (nat q))
      in if pow2 d \<le> x then d else d - 1)"

definition round_half_even :: "rat \<Rightarrow> int" where
  "round_half_even x =
     (let f = \<lfloor>x\<rfloor>;
          r = x - of_int f
      in if r < 1 / 2 then f else if 1 / 2 < r then f + 1 else if even f then f else f + 1)"

definition round_to_grid :: "int \<Rightarrow> rat \<Rightarrow> rat" where
  "round_to_grid e x = of_int (round_half_even (x / pow2 e)) * pow2 e"

definition strtod_value :: "rat \<Rightarrow> rat option" where
  "strtod_value v =
     (if v = 0 then Some 0
      else
        (let a = \<bar>v\<bar>;
             r = round_to_grid (binary_exponent a - 52) a;
             sg = (if v < 0 then - 1 else 1)
         in if 2 ^ 1024 \<le> r then None
            else if pow2 (- 1022) \<le> r then Some (sg * r)
            else (let t = round_to_grid (- 1074) a
                  in if t = a then Some (sg * t) else None)))"

text \<open>
  \<open>std::stod\<close> on the token \<open>parse_number\<close> has scanned, given by its parts: sign, integer
  digits, fraction digits, exponent sign and exponent digits. \<open>decimal_value\<close> is the
  number the token denotes; \<open>stod\<close> returns what \<open>strtod\<close> makes of it and throws
  \<open>out_of_range\<close> when \<open>strtod\<close> reports \<open>ERANGE\<close>.
\<close>

definition decimal_value :: "bool \<Rightarrow> string \<Rightarrow> string \<Rightarrow> bool \<Rightarrow> string \<Rightarrow> rat" where
  "decimal_value neg ip fp eneg ep =
     (let m = of_nat (digits_value ip) + of_nat (digits_value fp) / 10 ^ length fp;
          v = (if eneg then m / 10 ^ digits_value ep else m * 10 ^ digits_value ep)
      in if neg then - v else v)"

definition stod_token :: "bool \<Rightarrow> string \<Rightarrow> string \<Rightarrow> bool \<Rightarrow> string \<Rightarrow> error + rat" where
  "stod_token neg ip fp eneg ep =
     (case strtod_value (decimal_value neg ip fp eneg ep) of
        None \<Rightarrow> Inl (Out_of_range ''stod'')
      | Some d \<Rightarrow> Inr d)"

text \<open>The last two statements of \<open>parse_number\<close>; \<open>rest\<close> is the input behind the token.\<close>

definition number_value ::
  "bool \<Rightarrow> string \<Rightarrow> string \<Rightarrow> bool \<Rightarrow> string \<Rightarrow> string \<Rightarrow> error + (JsonValue \<times> string)" where
  "number_value neg ip fp eneg ep rest =
     (case stod_token neg ip fp eneg ep of
        Inl e \<Rightarrow> Inl e
      | Inr d \<Rightarrow> Inr (JsonNumber d, rest))"

fun number_sign :: "string \<Rightarrow> bool \<times> string" where
  "number_sign (c # cs) = (if c = CHR ''-'' then (True, cs) else (False, c # cs))"
| "number_sign [] = (False, [])"

fun exponent_sign :: "string \<Rightarrow> bool \<times> string" where
  "exponent_sign (c # cs) =
     (if c = CHR ''-'' then (True, cs) else if c = CHR ''+'' then (False, cs) else (False, c # cs))"
| "exponent_sign [] = (False, [])"

definition no_quote_ahead :: "string \<Rightarrow> bool" where
  "no_quote_ahead s = (case s of [] \<Rightarrow> True | c # _ \<Rightarrow> c \<noteq> CHR 0x22)"

definition no_digit_ahead :: "string \<Rightarrow> bool" where
  "no_digit_ahead s = (case s of [] \<Rightarrow> True | c # _ \<Rightarrow> \<not> is_digit c)"

definition number_exponent ::
  "bool \<Rightarrow> string \<Rightarrow> string \<Rightarrow> string \<Rightarrow> error + (JsonValue \<times> string)" where
  "number_exponent neg ip fp s =
     (case s of
        [] \<Rightarrow> number_value neg ip fp False [] s
      | c # r \<Rightarrow>
          if c = CHR ''e'' \<or> c = CHR ''E'' then
            (let (eneg, r1) = exponent_sign r
             in if no_digit_ahead r1 then Inl (Runtime_error ''Invalid number exponent'')
                else number_value neg ip fp eneg (takeWhile is_digit r1)
                       (dropWhile is_digit r1))
          else number_value neg ip fp False [] s)"

definition number_fraction :: "bool \<Rightarrow> string \<Rightarrow> string \<Rightarrow> error + (JsonValue \<times> string)" where
  "number_fraction neg ip s =
     (case s of
        [] \<Rightarrow> number_exponent neg ip [] s
      | c # r \<Rightarrow>
          if c = CHR ''.'' then
            (if no_digit_ahead r then Inl (Runtime_error ''Invalid decimal number'')
             else number_exponent neg ip (takeWhile is_digit r) (dropWhile is_digit r))
          else number_exponent neg ip [] s)"

definition parse_number :: "string \<Rightarrow> error + (JsonValue \<times> string)" where
  "parse_number s =
     (let (neg, s1) = number_sign s
      in case s1 of
           [] \<Rightarrow> Inl (Runtime_error ''Invalid number'')
         | c # r \<Rightarrow>
             if \<not> is_digit c then Inl (Runtime_error ''Invalid number'')
             else if c = CHR ''0'' then number_fraction neg [c] r
             else number_fraction neg (takeWhile is_digit s1) (dropWhile is_digit s1))"

definition parse_literal :: "string \<Rightarrow> error + (JsonValue \<times> string)" where
  "parse_literal s =
     (if starts_with s ''true'' then Inr (JsonBool True, drop 4 s)
      else if starts_with s ''false'' then Inr (JsonBool False, drop 5 s)
      else if starts_with s ''null'' then Inr (JsonNull, drop 4 s)
      else Inl (Runtime_error ''Invalid literal''))"

text \<open>
  \<open>parse_value\<close>, \<open>parse_object\<close> and \<open>parse_array\<close>, with the \<open>while (ptr < end)\<close> loops of
  the last two as \<open>parse_object_loop\<close> and \<open>parse_array_loop\<close>. The string argument is the
  input from \<open>ptr\<close> to \<open>end\<close>; a result carries the input left behind the value. The
  \<open>nat\<close> argument is the step budget. No function receives or tracks a nesting depth.

  Each body is written once, with the functions it calls as arguments (\<open>po\<close>, \<open>pa\<close>,
  \<open>pv\<close>, \<open>loop\<close>); the recursive definition below ties them together.
\<close>

type_synonym 'a parser = "string \<Rightarrow> ('a \<times> string) outcome"

definition parse_value_body ::
  "JsonValue parser \<Rightarrow> JsonValue parser \<Rightarrow> ParserConfig \<Rightarrow> nat \<Rightarrow> JsonValue parser" where
  "parse_value_body po pa cfg n s =
     obind (skip_whitespace cfg n s) (\<lambda>s1.
       case s1 of
         [] \<Rightarrow> Throw (Runtime_error ''Unexpected end of input'')
       | c # _ \<Rightarrow>
           if c = CHR ''{'' then po s1
           else if c = CHR ''['' then pa s1
           else if c = CHR 0x22 then lift (parse_string s1)
           else if c = CHR ''t'' \<or> c = CHR ''f'' \<or> c = CHR ''n'' then lift (parse_literal s1)
           else if c = CHR ''-'' \<or> is_digit c then lift (parse_number s1)
           else Throw (Runtime_error (''Unexpected character: '' @ [c])))"

definition parse_object_body ::
  "((string \<times> JsonValue) list \<Rightarrow> JsonValue parser) \<Rightarrow> ParserConfig \<Rightarrow> nat \<Rightarrow> JsonValue parser" where
  "parse_object_body loop cfg n s =
     (case s of
        [] \<Rightarrow> Throw (Runtime_error (''Expected '' @ quoted (CHR ''{'')))
      | c # r \<Rightarrow>
          if c \<noteq> CHR ''{'' then Throw (Runtime_error (''Expected '' @ quoted (CHR ''{'')))
          else
            obind (skip_whitespace cfg n r) (\<lambda>r1.
              case r1 of
                [] \<Rightarrow> loop [] r1
              | d # r2 \<Rightarrow>
                  if d = CHR ''}'' then Done (JsonObject [], r2)
                  else loop [] r1))"

definition parse_object_loop_body ::
  "JsonValue parser \<Rightarrow> ((string \<times> JsonValue) list \<Rightarrow> JsonValue parser) \<Rightarrow>
   ParserConfig \<Rightarrow> nat \<Rightarrow> (string \<times> JsonValue) list \<Rightarrow> JsonValue parser" where
  "parse_object_loop_body pv loop cfg n obj s =
     (if s = [] then Done (JsonObject obj, s)
      else
        obind (skip_whitespace cfg n s) (\<lambda>s1.
          if no_quote_ahead s1 then Throw (Runtime_error ''Expected string key'')
          else
            obind (lift (parse_string s1)) (\<lambda>(key_value, s2).
            obind (lift (as_string key_value)) (\<lambda>key.
            obind (skip_whitespace cfg n s2) (\<lambda>s3.
              case s3 of
                [] \<Rightarrow> Throw (Runtime_error (''Expected '' @ quoted (CHR '':'')))
              | c # s4 \<Rightarrow>
                  if c \<noteq> CHR '':'' then Throw (Runtime_error (''Expected '' @ quoted (CHR '':'')))
                  else
                    obind (pv s4) (\<lambda>(val, s5).
                    obind (skip_whitespace cfg n s5) (\<lambda>s6.
                      case s6 of
                        [] \<Rightarrow> Throw (Runtime_error ''Unexpected end of object'')
                      | d # s7 \<Rightarrow>
                          if d = CHR ''}'' then Done (JsonObject (umap_assign obj key val), s7)
                          else if d = CHR '','' then
                            (if allow_trailing_commas cfg then
                               obind (skip_whitespace cfg n s7) (\<lambda>s8.
                                 case s8 of
                                   [] \<Rightarrow> loop (umap_assign obj key val) s8
                                 | e # s9 \<Rightarrow>
                                     if e = CHR ''}''
                                     then Done (JsonObject (umap_assign obj key val), s9)
                                     else loop (umap_assign obj key val) s8)
                             else loop (umap_assign obj key val) s7)
                          else Throw (Runtime_error
                                 (''Expected '' @ quoted (CHR '','') @ '' or '' @ quoted (CHR ''}''))))))))))"

definition parse_array_body ::
  "(JsonValue list \<Rightarrow> JsonValue parser) \<Rightarrow> ParserConfig \<Rightarrow> nat \<Rightarrow> JsonValue parser" where
  "parse_array_body loop cfg n s =
     (case s of
        [] \<Rightarrow> Throw (Runtime_error (''Expected '' @ quoted (CHR ''['')))
      | c # r \<Rightarrow>
          if c \<noteq> CHR ''['' then Throw (Runtime_error (''Expected '' @ quoted (CHR ''['')))
          else
            obind (skip_whitespace cfg n r) (\<lambda>r1.
              case r1 of
                [] \<Rightarrow> loop [] r1
              | d # r2 \<Rightarrow>
                  if d = CHR '']'' then Done (JsonArray [], r2)
                  else loop [] r1))"

definition parse_array_loop_body ::
  "JsonValue parser \<Rightarrow> (JsonValue list \<Rightarrow> JsonValue parser) \<Rightarrow>
   ParserConfig \<Rightarrow> nat \<Rightarrow> JsonValue list \<Rightarrow> JsonValue parser" where
  "parse_array_loop_body pv loop cfg n arr s =
     (if s = [] then Done (JsonArray arr, s)
      else
        obind (pv s) (\<lambda>(val, s1).
        obind (skip_whitespace cfg n s1) (\<lambda>s2.
          case s2 of
            [] \<Rightarrow> Throw (Runtime_error ''Unexpected end of array'')
          | d # s3 \<Rightarrow>
              if d = CHR '']'' then Done (JsonArray (arr @ [val]), s3)
              else if d = CHR '','' then
                (if allow_trailing_commas cfg then
                   obind (skip_whitespace cfg n s3) (\<lambda>s4.
                     case s4 of
                       [] \<Rightarrow> loop (arr @ [val]) s4
                     | e # s5 \<Rightarrow>
                         if e = CHR '']'' then Done (JsonArray (arr @ [val]), s5)
                         else loop (arr @ [val]) s4)
                 else loop (arr @ [val]) s3)
              else Throw (Runtime_error
                     (''Expected '' @ quoted (CHR '','') @ '' or '' @ quoted (CHR '']''))))))"

function (sequential) parse_value :: "ParserConfig \<Rightarrow> nat \<Rightarrow> JsonValue parser"
  and parse_object :: "ParserConfig \<Rightarrow> nat \<Rightarrow> JsonValue parser"
  and parse_object_loop :: "ParserConfig \<Rightarrow> nat \<Rightarrow> (string \<times> JsonValue) list \<Rightarrow> JsonValue parser"
  and parse_array :: "ParserConfig \<Rightarrow> nat \<Rightarrow> JsonValue parser"
  and parse_array_loop :: "ParserConfig \<Rightarrow> nat \<Rightarrow> JsonValue list \<Rightarrow> JsonValue parser" where
  "parse_value cfg 0 s = Out_of_fuel"
| "parse_value cfg (Suc n) s =
     parse_value_body (\<lambda>t. parse_object cfg n t) (\<lambda>t. parse_array cfg n t) cfg n s"
| "parse_object cfg 0 s = Out_of_fuel"
| "parse_object cfg (Suc n) s =
     parse_object_body (\<lambda>obj t. parse_object_loop cfg n obj t) cfg n s"
| "parse_object_loop cfg 0 obj s = Out_of_fuel"
| "parse_object_loop cfg (Suc n) obj s =
     parse_object_loop_body (\<lambda>t. parse_value cfg n t) (\<lambda>obj' t. parse_object_loop cfg n obj' t)
       cfg n obj s"
| "parse_array cfg 0 s = Out_of_fuel"
| "parse_array cfg (Suc n) s =
     parse_array_body (\<lambda>arr t. parse_array_loop cfg n arr t) cfg n s"
| "parse_array_loop cfg 0 arr s = Out_of_fuel"
| "parse_array_loop cfg (Suc n) arr s =
     parse_array_loop_body (\<lambda>t. parse_value cfg n t) (\<lambda>arr' t. parse_array_loop cfg n arr' t)
       cfg n arr s"
  by pat_completeness auto

termination
  by (relation "measure (\<lambda>x. case x of
      Inl (Inl (cfg, n, s)) \<Rightarrow> n
    | Inl (Inr (cfg, n, s)) \<Rightarrow> n
    | Inr (Inl (cfg, n, obj, s)) \<Rightarrow> n
    | Inr (Inr (Inl (cfg, n, s))) \<Rightarrow> n
    | Inr (Inr (Inr (cfg, n, arr, s))) \<Rightarrow> n)") simp_all

text \<open>
  The budget \<open>parse\<close> hands to the recursion. A call consumes one unit; between two
  consumed input characters at most three calls are nested.
\<close>

definition parse_fuel :: "string \<Rightarrow> nat" where
  "parse_fuel s = 3 * length s + 5"

text \<open>
  \<open>JsonParser::parse\<close>. \<open>elapsed\<close> is the duration the clock measures; the statistics are
  the parser's state.
\<close>

definition parse ::
  "ParserConfig \<Rightarrow> nat \<Rightarrow> ParserStats \<Rightarrow> string \<Rightarrow> JsonValue outcome \<times> ParserStats" where
  "parse cfg elapsed st json_str =
     (let n = parse_fuel json_str;
          r = obind (skip_whitespace cfg n json_str) (\<lambda>s1.
                if s1 = [] then Throw (Runtime_error ''Empty JSON document'')
                else
                  obind (parse_value cfg n s1) (\<lambda>(result, s2).
                  obind (skip_whitespace cfg n s2) (\<lambda>s3.
                    if s3 \<noteq> [] \<and> strict_mode cfg
                    then Throw (Runtime_error ''Unexpected content after JSON document'')
                    else Done result)))
      in case r of
           Done v \<Rightarrow>
             (Done v,
              st\<lparr>documents_parsed := documents_parsed st + 1,
                    total_parse_time_ns := total_parse_time_ns st + elapsed,
                    bytes_parsed := bytes_parsed st + length json_str\<rparr>)
         | Throw e \<Rightarrow> (Throw e, st\<lparr>parse_errors := parse_errors st + 1\<rparr>)
         | Out_of_fuel \<Rightarrow> (Out_of_fuel, st))"

section \<open>JSON serializer (json\_accelerator.cpp)\<close>

record SerializerConfig =
  pretty_print :: bool
  indent_size :: int
  escape_unicode :: bool
  sort_keys :: bool
  ensure_ascii :: bool

text \<open>The member initialisers of \<open>JsonSerializer::Config\<close>.\<close>

definition default_SerializerConfig :: SerializerConfig where
  "default_SerializerConfig =
     \<lparr>pretty_print = False, indent_size = 2, escape_unicode = False, sort_keys = False,
      ensure_ascii = False\<rparr>"

definition add_indent :: "SerializerConfig \<Rightarrow> int \<Rightarrow> string" where
  "add_indent cfg depth = replicate (nat (depth * indent_size cfg)) (CHR '' '')"

text \<open>\<open>char\<close> read as a signed 8-bit value, as on the x86 targets.\<close>

definition schar :: "char \<Rightarrow> int" where
  "schar c = (if byte c < 128 then int (byte c) else int (byte c) - 256)"

definition needs_escaping :: "char \<Rightarrow> bool" where
  "needs_escaping c = (c = CHR 0x22 \<or> c = CHR 0x5C \<or> schar c < 0x20)"

fun hex_nat :: "nat \<Rightarrow> string" where
  "hex_nat n = (if n < 16 then [digit_char n] else hex_nat (n div 16) @ [digit_char (n mod 16)])"

declare hex_nat.simps [simp del]

text \<open>
  \<open>oss << std::hex << std::setw(4) << std::setfill('0') << static_cast<int>(c)\<close>: a negative
  \<open>int\<close> prints as its 32-bit two's complement.
\<close>

definition hex4 :: "int \<Rightarrow> string" where
  "hex4 i = (let h = hex_nat (nat (i mod 2 ^ 32)) in replicate (4 - length h) (CHR ''0'') @ h)"

definition escape_char :: "char \<Rightarrow> string" where
  "escape_char c =
     (if needs_escaping c then
        CHR 0x5C #
          (if c = CHR 0x22 then [CHR 0x22]
           else if c = CHR 0x5C then [CHR 0x5C]
           else if c = CHR 0x08 then ''b''
           else if c = CHR 0x0C then ''f''
           else if c = CHR 0x0A then ''n''
           else if c = CHR 0x0D then ''r''
           else if c = CHR 0x09 then ''t''
           else ''u'' @ hex4 (schar c))
      else [c])"

definition escape_string :: "string \<Rightarrow> string" where
  "escape_string str = concat (map escape_char str)"

definition serialize_string :: "string \<Rightarrow> string" where
  "serialize_string str = [CHR 0x22] @ escape_string str @ [CHR 0x22]"

text \<open>
  \<open>serialize_number\<close>. The test \<open>num == static_cast<long long>(num)\<close> holds for the whole
  numbers from \<open>-2^63\<close> up to, not including, \<open>2^63\<close>. Beyond that range the conversion
  is undefined; the x86-64 instruction yields \<open>LLONG_MIN\<close>, so the test fails. The
  other branch prints through an \<open>ostringstream\<close> with 15 significant digits; that
  formatting is the argument \<open>fmt\<close>.
\<close>

definition serialize_number :: "(rat \<Rightarrow> string) \<Rightarrow> rat \<Rightarrow> string" where
  "serialize_number fmt num =
     (if - (2 ^ 63) \<le> num \<and> num < 2 ^ 63 \<and> num = of_int \<lfloor>num\<rfloor>
      then to_string \<lfloor>num\<rfloor> else fmt num)"

text \<open>
  The loop of \<open>serialize_array\<close> over the elements, each already serialized at
  \<open>depth + 1\<close>; \<open>first\<close> is the test \<open>i > 0\<close> negated.
\<close>

fun array_items :: "SerializerConfig \<Rightarrow> int \<Rightarrow> bool \<Rightarrow> string list \<Rightarrow> string" where
  "array_items cfg depth first [] = []"
| "array_items cfg depth first (item # rest) =
     (if \<not> first then '','' @ (if pretty_print cfg then [CHR 0x0A] else []) else [])
     @ (if pretty_print cfg then add_indent cfg (depth + 1) else [])
     @ item
     @ array_items cfg depth False rest"

definition serialize_array :: "SerializerConfig \<Rightarrow> string list \<Rightarrow> int \<Rightarrow> string" where
  "serialize_array cfg items depth =
     ''[''
     @ (if pretty_print cfg \<and> items \<noteq> [] then [CHR 0x0A] else [])
     @ array_items cfg depth True items
     @ (if pretty_print cfg \<and> items \<noteq> [] then [CHR 0x0A] @ add_indent cfg depth else [])
     @ '']''"

text \<open>
  The loop of \<open>serialize_object\<close> over the members in iteration order. The function
  receives the members as the loop visits them, each with the text of its value; the
  test \<open>!obj.empty()\<close> is \<open>members \<noteq> []\<close>, as the iteration of a container visits every
  member it holds.
\<close>

fun object_members :: "SerializerConfig \<Rightarrow> int \<Rightarrow> bool \<Rightarrow> (string \<times> string) list \<Rightarrow> string" where
  "object_members cfg depth first [] = []"
| "object_members cfg depth first ((key, item) # rest) =
     (if \<not> first then '','' @ (if pretty_print cfg then [CHR 0x0A] else []) else [])
     @ (if pretty_print cfg then add_indent cfg (depth + 1) else [])
     @ serialize_string key
     @ '':''
     @ (if pretty_print cfg then '' '' else [])
     @ item
     @ object_members cfg depth False rest"

definition serialize_object :: "SerializerConfig \<Rightarrow> (string \<times> string) list \<Rightarrow> int \<Rightarrow> string" where
  "serialize_object cfg members depth =
     ''{''
     @ (if pretty_print cfg then [CHR 0x0A] else [])
     @ object_members cfg depth True members
     @ (if pretty_print cfg \<and> members \<noteq> [] then [CHR 0x0A] @ add_indent cfg depth else [])
     @ ''}''"

text \<open>
  \<open>serialize_value\<close>. The text appended for a container is assembled by
  \<open>serialize_array\<close> and \<open>serialize_object\<close> from the texts of the children, which are
  visited in the order of the vector and in the iteration order \<open>ord\<close> of the
  unordered map.
\<close>

function serialize_value ::
  "(string list \<Rightarrow> string list) \<Rightarrow> (rat \<Rightarrow> string) \<Rightarrow> SerializerConfig \<Rightarrow> JsonValue \<Rightarrow> int
   \<Rightarrow> string" where
  "serialize_value ord fmt cfg JsonNull depth = ''null''"
| "serialize_value ord fmt cfg (JsonBool b) depth = (if b then ''true'' else ''false'')"
| "serialize_value ord fmt cfg (JsonNumber num) depth = serialize_number fmt num"
| "serialize_value ord fmt cfg (JsonString str) depth = serialize_string str"
| "serialize_value ord fmt cfg (JsonArray arr) depth =
     serialize_array cfg (map (\<lambda>x. serialize_value ord fmt cfg x (depth + 1)) arr) depth"
| "serialize_value ord fmt cfg (JsonObject obj) depth =
     serialize_object cfg
       (map (\<lambda>m. (fst m, serialize_value ord fmt cfg (snd m) (depth + 1))) (umap_iterate ord obj))
       depth"
  by pat_completeness auto

termination
proof (relation "measure (\<lambda>(ord, fmt, cfg, v, depth). size v)")
  show "wf (measure (\<lambda>(ord, fmt, cfg, v, depth). size v))"
    by simp
next
  fix ord :: "string list \<Rightarrow> string list" and fmt :: "rat \<Rightarrow> string"
    and cfg :: SerializerConfig and arr :: "JsonValue list" and depth :: int and x
  assume "x \<in> set arr"
  then have "size x < Suc (size_list size arr)"
    by (induction arr) auto
  then show "((ord, fmt, cfg, x, depth + 1), (ord, fmt, cfg, JsonArray arr, depth))
      \<in> measure (\<lambda>(ord, fmt, cfg, v, depth). size v)"
    by simp
next
  fix ord :: "string list \<Rightarrow> string list" and fmt :: "rat \<Rightarrow> string"
    and cfg :: SerializerConfig and obj :: "(string \<times> JsonValue) list" and depth :: int and m
  assume "m \<in> set (umap_iterate ord obj)"
  then have "m \<in> set obj"
    by (auto simp: umap_iterate_def List.map_filter_def dest: map_of_SomeD)
  then have "size (snd m) < size_list (size_prod (\<lambda>x. 0) size) obj"
    by (rule size_list_estimation) (cases m, simp)
  then show "((ord, fmt, cfg, snd m, depth + 1), (ord, fmt, cfg, JsonObject obj, depth))
      \<in> measure (\<lambda>(ord, fmt, cfg, v, depth). size v)"
    by simp
qed

text \<open>\<open>JsonSerializer::serialize\<close> starts at depth 0.\<close>

definition serialize ::
  "(string list \<Rightarrow> string list) \<Rightarrow> (rat \<Rightarrow> string) \<Rightarrow> SerializerConfig \<Rightarrow> JsonValue \<Rightarrow> string" where
  "serialize ord fmt cfg v = serialize_value ord fmt cfg v 0"

section \<open>Inputs and reference texts used in the JSON theorems\<close>

text \<open>Arrays nested \<open>n + 1\<close> deep around nothing, and the text that denotes them.\<close>

fun nest :: "nat \<Rightarrow> JsonValue" where
  "nest 0 = JsonArray []"
| "nest (Suc n) = JsonArray [nest n]"

fun nested :: "nat \<Rightarrow> string \<Rightarrow> string" where
  "nested 0 rest = CHR ''['' # CHR '']'' # rest"
| "nested (Suc n) rest = CHR ''['' # nested n (CHR '']'' # rest)"

text \<open>The counters of a fresh parser (each atomic starts at 0).\<close>

definition initial_ParserStats :: ParserStats where
  "initial_ParserStats =
     \<lparr>documents_parsed = 0, total_parse_time_ns = 0, bytes_parsed = 0, parse_errors = 0\<rparr>"

text \<open>
  The document of the end-to-end scenario, an object with the members \<open>a\<close> (the number 1)
  and \<open>b\<close> (the array of true, null and the string x) written in this order with one
  blank behind each colon and comma, the value it denotes, and its two compact texts:
  \<open>a\<close> before \<open>b\<close>, and \<open>b\<close> before \<open>a\<close>. \<open>dq\<close> is the double quote.
\<close>

definition dq :: char where
  "dq = CHR 0x22"

definition example_document :: string where
  "example_document =
     ''{'' @ dq # ''a'' @ dq # '': 1, '' @ dq # ''b'' @ dq # '': [true, null, '' @ dq # ''x'' @ dq # '']}''"

definition example_value :: JsonValue where
  "example_value =
     JsonObject [(''a'', JsonNumber 1), (''b'', JsonArray [JsonBool True, JsonNull, JsonString ''x''])]"

definition insertion_ordered_text :: string where
  "insertion_ordered_text =
     ''{'' @ dq # ''a'' @ dq # '':1,'' @ dq # ''b'' @ dq # '':[true,null,'' @ dq # ''x'' @ dq # '']}''"

definition reversed_text :: string where
  "reversed_text =
     ''{'' @ dq # ''b'' @ dq # '':[true,null,'' @ dq # ''x'' @ dq # ''],'' @ dq # ''a'' @ dq # '':1}''"

text \<open>
  A formatter for the closed examples, which hold whole numbers only and never call it.
\<close>

definition plain_fmt :: "rat \<Rightarrow> string" where
  "plain_fmt r = []"

text \<open>
  Texts joined by a separator; the text of one member of an object at \<open>depth\<close>, given
  the text of its value; and the assumption on the iteration order of a container that
  holds the keys \<open>ks\<close>: it lists each of them once.
\<close>

fun join_with :: "string \<Rightarrow> string list \<Rightarrow> string" where
  "join_with sep [] = []"
| "join_with sep [x] = x"
| "join_with sep (x # y # rest) = x @ sep @ join_with sep (y # rest)"

definition member_text :: "SerializerConfig \<Rightarrow> int \<Rightarrow> string \<times> string \<Rightarrow> string" where
  "member_text cfg depth m =
     (if pretty_print cfg then add_indent cfg (depth + 1) else [])
     @ serialize_string (fst m) @ '':'' @ (if pretty_print cfg then '' '' else []) @ snd m"

definition lists_each_once :: "(string list \<Rightarrow> string list) \<Rightarrow> string list \<Rightarrow> bool" where
  "lists_each_once ord ks = (distinct (ord ks) \<and> set (ord ks) = set ks)"

section \<open>Request parser and response builder (request\_parser.cpp)\<close>

text \<open>
  \<open>RequestParser::parse_headers\<close> walks the fields of the request in order, lower-cases
  each name with \<open>::tolower\<close> and stores the value with \<open>result.headers[name] = value\<close>.
  \<open>headers\<close> is a \<open>std::unordered_map<std::string, std::string>\<close>. The request is the
  list of its fields (name, value); the second argument is \<open>result.headers\<close> before the
  call, the result is \<open>result.headers\<close> after it.
\<close>

fun parse_headers :: "(string \<times> string) list \<Rightarrow> string umap \<Rightarrow> string umap" where
  "parse_headers [] headers = headers"
| "parse_headers ((name, val) # rest) headers =
     parse_headers rest (umap_assign headers (map tolower name) val)"

text \<open>
  Looking a name up in the mapping is \<open>headers.find(key)\<close>, as \<open>RequestParser::parse\<close>
  does with \<open>content-type\<close> and \<open>cookie\<close>: an exact comparison of byte strings.
\<close>

definition headers_find :: "string umap \<Rightarrow> string \<Rightarrow> string option" where
  "headers_find headers key = map_of headers key"

definition is_upper :: "char \<Rightarrow> bool" where
  "is_upper c = (65 \<le> byte c \<and> byte c \<le> 90)"

record ResponseData =
  status_code :: int
  status_message :: string
  headers :: "string umap"
  cookies :: "(string \<times> string) list"
  body :: string
  response_enable_compression :: bool
  response_enable_cache :: bool
  cache_max_age :: int

text \<open>
  The member initialisers of \<open>ResponseData\<close>. (The flags \<open>enable_compression\<close> and
  \<open>enable_cache\<close> carry the prefix \<open>response_\<close> here; the builder never reads them.)
\<close>

definition default_ResponseData :: ResponseData where
  "default_ResponseData =
     \<lparr>status_code = 200, status_message = ''OK'', headers = [], cookies = [], body = [],
      response_enable_compression = False, response_enable_cache = False, cache_max_age = 0\<rparr>"

text \<open>\<open>ResponseBuilder::add_cookie\<close>; the result is the response data after the call.\<close>

definition add_cookie ::
  "ResponseData \<Rightarrow> string \<Rightarrow> string \<Rightarrow> string \<Rightarrow> string \<Rightarrow> int \<Rightarrow> bool \<Rightarrow> bool \<Rightarrow> ResponseData" where
  "add_cookie response name val path domain max_age secure http_only =
     (let cookie_value =
            name @ ''='' @ val
            @ (if path \<noteq> [] then ''; Path='' @ path else [])
            @ (if domain \<noteq> [] then ''; Domain='' @ domain else [])
            @ (if max_age \<ge> 0 then ''; Max-Age='' @ to_string max_age else [])
            @ (if secure then ''; Secure'' else [])
            @ (if http_only then ''; HttpOnly'' else [])
      in response\<lparr>cookies := cookies response @ [(name, cookie_value)]\<rparr>)"

text \<open>
  The message being built is a \<open>boost::beast::http::response<string_body>\<close>. Its header is
  a sequence of fields (name, value). \<open>basic_fields::set(name, value)\<close> removes every field
  whose name equals \<open>name\<close> up to ASCII case and then inserts the new field;
  \<open>basic_fields::insert\<close>, which would keep the fields already there, is not called
  anywhere in the source.
\<close>

record Response =
  result_code :: int
  version :: nat
  header_fields :: "(string \<times> string) list"
  payload :: string

definition iequals :: "string \<Rightarrow> string \<Rightarrow> bool" where
  "iequals a b = (map tolower a = map tolower b)"

definition fields_set :: "string \<Rightarrow> string \<Rightarrow> (string \<times> string) list \<Rightarrow> (string \<times> string) list" where
  "fields_set name val fs = filter (\<lambda>f. \<not> iequals (fst f) name) fs @ [(name, val)]"

text \<open>The fields of a given name, as a client reading the header sees them.\<close>

definition fields_named :: "string \<Rightarrow> (string \<times> string) list \<Rightarrow> (string \<times> string) list" where
  "fields_named name fs = filter (\<lambda>f. iequals (fst f) name) fs"

text \<open>The loop \<open>for (name, value) : data.headers\<close> with \<open>response.set(name, value)\<close>.\<close>

fun set_custom_headers :: "(string \<times> string) list \<Rightarrow> (string \<times> string) list \<Rightarrow> (string \<times> string) list" where
  "set_custom_headers [] fs = fs"
| "set_custom_headers ((name, val) # rest) fs = set_custom_headers rest (fields_set name val fs)"

text \<open>
  The loop \<open>for (name, value) : data.cookies\<close> with
  \<open>response.set(http::field::set_cookie, name + "=" + value + "; Path=/")\<close>.
\<close>

fun set_cookies :: "(string \<times> string) list \<Rightarrow> (string \<times> string) list \<Rightarrow> (string \<times> string) list" where
  "set_cookies [] fs = fs"
| "set_cookies ((name, val) # rest) fs =
     set_cookies rest (fields_set ''Set-Cookie'' (name @ ''='' @ val @ ''; Path=/'') fs)"

text \<open>
  \<open>message::prepare_payload\<close> for a response with a string body: a non-empty body with an
  informational, 204 or 304 status throws \<open>std::invalid_argument\<close>; otherwise the
  Content-Length field is set to the size of the body. (It also clears the chunked token
  of a Transfer-Encoding field, which is left out here.)
\<close>

definition prepare_payload :: "Response \<Rightarrow> error + Response" where
  "prepare_payload r =
     (if payload r \<noteq> [] \<and>
         ((100 \<le> result_code r \<and> result_code r < 200) \<or> result_code r = 204 \<or> result_code r = 304)
      then Inl (Invalid_argument ''invalid response body'')
      else Inr (r\<lparr>header_fields := fields_set ''Content-Length'' (to_string_nat (length (payload r))) (header_fields r)\<rparr>))"

text \<open>
  \<open>ResponseBuilder::build_response\<close>. \<open>ord\<close> is the iteration order of the unordered map
  \<open>data.headers\<close>. The builder's statistics do not influence the message and are left out.
\<close>

definition build_response :: "(string list \<Rightarrow> string list) \<Rightarrow> ResponseData \<Rightarrow> error + Response" where
  "build_response ord data =
     (let f1 = fields_set ''Server'' ''PySpeed/1.0'' [];
          f2 = fields_set ''Content-Length'' (to_string_nat (length (body data))) f1;
          f3 = set_custom_headers (umap_iterate ord (headers data)) f2;
          f4 = set_cookies (cookies data) f3
      in prepare_payload
           \<lparr>result_code = status_code data, version = 11, header_fields = f4, payload = body data\<rparr>)"

text \<open>A response with two cookies, built with the default arguments of \<open>add_cookie\<close>.\<close>

definition two_cookies :: ResponseData where
  "two_cookies =
     add_cookie (add_cookie default_ResponseData ''sid'' ''1'' ''/'' [] (- 1) False True)
       ''lang'' ''en'' ''/'' [] (- 1) False True"

section \<open>Static file handler (static\_handler.cpp, compatibility.hpp)\<close>

text \<open>
  Byte counts (\<open>size_t\<close>) are natural numbers. File sizes and their sums stay far below
  \<open>2^64\<close>, so additions and the guarded subtractions of the source are exact; the
  subtractions without a guard, \<open>file_size - 1\<close> in the range parser and
  \<open>current_cache_size_ -= entry->file_size\<close> in the cache, are written with \<open>size_sub\<close>,
  which wraps as \<open>size_t\<close> does.
\<close>

definition size_sub :: "nat \<Rightarrow> nat \<Rightarrow> nat" where
  "size_sub a b = (a + 2 ^ 64 - b mod 2 ^ 64) mod 2 ^ 64"

subsection \<open>Path utilities\<close>

text \<open>\<open>get_filename\<close>: the part behind the last slash or backslash.\<close>

definition get_filename :: "string \<Rightarrow> string" where
  "get_filename path = rev (takeWhile (\<lambda>c. c \<noteq> CHR ''/'' \<and> c \<noteq> CHR 0x5C) (rev path))"

text \<open>\<open>get_extension\<close>: the file name from its last dot on, or nothing.\<close>

definition get_extension :: "string \<Rightarrow> string" where
  "get_extension path =
     (let filename = get_filename path
      in if CHR ''.'' \<in> set filename
         then CHR ''.'' # rev (takeWhile (\<lambda>c. c \<noteq> CHR ''.'') (rev filename))
         else [])"

fun split_on :: "char \<Rightarrow> string \<Rightarrow> string list" where
  "split_on sep [] = [[]]"
| "split_on sep (c # cs) =
     (if c = sep then [] # split_on sep cs
      else (case split_on sep cs of
              [] \<Rightarrow> [[c]]
            | p # ps \<Rightarrow> (c # p) # ps))"

text \<open>
  \<open>static_utils::normalize_path\<close> is \<open>std::filesystem::path(path).lexically_normal()\<close>.
  The model follows the normalization algorithm of the C++ standard for POSIX paths:
  runs of slashes collapse, \<open>.\<close> is dropped, a name followed by \<open>..\<close> cancels with it,
  \<open>..\<close> directly below the root is dropped, leading \<open>..\<close> of a relative path stay, a
  trailing separator is kept unless the last name is \<open>..\<close>, and an empty result is
  \<open>.\<close>. A path made of slashes only is the root directory alone, which libstdc++
  returns as it was written. The stack of \<open>normal_names\<close> holds the names kept so far,
  last one first.
\<close>

fun normal_names :: "bool \<Rightarrow> string list \<Rightarrow> string list \<Rightarrow> string list" where
  "normal_names is_abs st [] = st"
| "normal_names is_abs st (n # ns) =
     (if n = ''.'' then normal_names is_abs st ns
      else if n = ''..'' then
        (case st of
           [] \<Rightarrow> if is_abs then normal_names is_abs [] ns else normal_names is_abs [''..''] ns
         | name # below \<Rightarrow>
             if name = ''..'' then normal_names is_abs (''..'' # st) ns
             else normal_names is_abs below ns)
      else normal_names is_abs (n # st) ns)"

fun join_path :: "string list \<Rightarrow> string" where
  "join_path [] = []"
| "join_path [n] = n"
| "join_path (n # m # rest) = n @ ''/'' @ join_path (m # rest)"

definition lexically_normal :: "string \<Rightarrow> string" where
  "lexically_normal path =
     (case path of
        [] \<Rightarrow> []
      | c # _ \<Rightarrow>
          if list_all (\<lambda>c. c = CHR ''/'') path then path
          else
          (let pieces = split_on (CHR ''/'') path;
               names = filter (\<lambda>n. n \<noteq> []) pieces;
               is_abs = (c = CHR ''/'');
               st = normal_names is_abs [] names;
               open_end = (names \<noteq> [] \<and> (last pieces = [] \<or> last names = ''.'' \<or> last names = ''..''));
               trailing = (case st of [] \<Rightarrow> False | name # _ \<Rightarrow> open_end \<and> name \<noteq> ''..'');
               out = (if is_abs then ''/'' else []) @ join_path (rev st) @ (if trailing then ''/'' else [])
           in if out = [] then ''.'' else out))"

definition normalize_path :: "string \<Rightarrow> string" where
  "normalize_path path = lexically_normal path"

definition is_safe_path :: "string \<Rightarrow> bool" where
  "is_safe_path path = (\<not> contains path ''..'' \<and> \<not> contains path ''//'')"

subsection \<open>Data\<close>

record Config =
  root_directory :: string
  max_cache_size_mb :: nat
  max_file_size_mb :: nat
  cache_ttl :: nat
  enable_compression :: bool
  enable_range_requests :: bool
  enable_etags :: bool
  compression_threshold :: nat
  compression_types :: "string list"
  allow_directory_traversal :: bool
  forbidden_extensions :: "string list"
  hidden_prefixes :: "string list"

text \<open>The member initialisers of \<open>StaticFileHandler::Config\<close>.\<close>

definition default_Config :: Config where
  "default_Config =
     \<lparr>root_directory = ''./static'', max_cache_size_mb = 512, max_file_size_mb = 100,
      cache_ttl = 60, enable_compression = True, enable_range_requests = True,
      enable_etags = True, compression_threshold = 1024,
      compression_types = [''text/html'', ''text/css'', ''text/javascript'',
                           ''application/javascript'', ''application/json'', ''text/xml''],
      allow_directory_traversal = False,
      forbidden_extensions = [''.tmp'', ''.bak'', ''.log''],
      hidden_prefixes = [''.'', ''_'']\<rparr>"

text \<open>
  A cache entry. \<open>mapped_data\<close> is \<open>None\<close> for \<open>nullptr\<close> and otherwise the bytes of the
  mapping; times are clock readings.
\<close>

record CacheEntry =
  file_path :: string
  content_type :: string
  etag :: string
  last_modified :: int
  file_size :: nat
  mapped_data :: "string option"
  mapped_size :: nat
  last_accessed :: nat
  access_count :: nat
  is_compressed :: bool
  compressed_data :: string

datatype Status =
  SUCCESS | NOT_FOUND | FORBIDDEN | NOT_MODIFIED | RANGE_NOT_SATISFIABLE | INTERNAL_ERROR

text \<open>
  What \<open>ServeResult::data\<close> points at: nothing (\<open>nullptr\<close>), \<open>nullptr\<close> advanced by an
  offset (no object behind it), or a buffer, given by the bytes from the pointer to the
  end of the buffer.
\<close>

datatype data_ptr = Null_ptr | Null_plus nat | View string

record ServeResult =
  status :: Status
  res_content_type :: string
  res_etag :: string
  res_last_modified :: int
  content_length :: nat
  data :: data_ptr
  owns_data :: bool
  string_data :: string
  is_partial_content :: bool
  range_start :: nat
  range_end :: nat
  total_size :: nat

text \<open>The member initialisers of \<open>ServeResult\<close>.\<close>

definition new_ServeResult :: ServeResult where
  "new_ServeResult =
     \<lparr>status = SUCCESS, res_content_type = [], res_etag = [], res_last_modified = 0,
      content_length = 0, data = Null_ptr, owns_data = False, string_data = [],
      is_partial_content = False, range_start = 0, range_end = 0, total_size = 0\<rparr>"

record Stats =
  files_served :: nat
  bytes_served :: nat
  cache_hits :: nat
  cache_misses :: nat
  files_compressed :: nat
  range_requests :: nat
  not_modified_responses :: nat
  total_serve_time_us :: nat

definition new_Stats :: Stats where
  "new_Stats =
     \<lparr>files_served = 0, bytes_served = 0, cache_hits = 0, cache_misses = 0,
      files_compressed = 0, range_requests = 0, not_modified_responses = 0,
      total_serve_time_us = 0\<rparr>"

text \<open>
  The members of the handler; the source writes each with a trailing underscore
  (\<open>config_\<close>, \<open>stats_\<close>, \<open>routes_\<close>, \<open>cache_\<close>, \<open>current_cache_size_\<close>).
\<close>

record StaticFileHandler =
  config :: Config
  stats :: Stats
  routes :: "string umap"
  cache :: "CacheEntry umap"
  current_cache_size :: nat

text \<open>The handler after construction, and \<open>add_route\<close>.\<close>

definition new_StaticFileHandler :: "Config \<Rightarrow> StaticFileHandler" where
  "new_StaticFileHandler cfg =
     \<lparr>config = cfg, stats = new_Stats, routes = [], cache = [],
      current_cache_size = 0\<rparr>"

definition add_route :: "StaticFileHandler \<Rightarrow> string \<Rightarrow> string \<Rightarrow> StaticFileHandler" where
  "add_route h url_path local_path = h\<lparr>routes := umap_assign (routes h) url_path local_path\<rparr>"

subsection \<open>The world outside the handler\<close>

text \<open>
  A regular file as \<open>stat\<close>, \<open>open\<close> and \<open>mmap\<close> show it: modification time, bytes, and
  whether opening and mapping it succeed. The file system maps a path to the regular
  file there. \<open>mmap\<close> of an empty file fails.
\<close>

record disk_file =
  mtime :: int
  content :: string
  mappable :: bool

type_synonym filesystem = "string \<Rightarrow> disk_file option"

definition map_file :: "disk_file \<Rightarrow> string option" where
  "map_file f = (if mappable f \<and> content f \<noteq> [] then Some (content f) else None)"

text \<open>
  Library functions the handler calls and the model does not look into:
  \<open>std::hash<std::string>\<close>, the locale-dependent date parsing behind \<open>parse_http_date\<close>,
  and zlib's \<open>deflate\<close> run to the end of the input into a buffer of a given capacity
  (\<open>None\<close> when it does not reach \<open>Z_STREAM_END\<close>).
\<close>

record platform =
  path_hash :: "string \<Rightarrow> nat"
  parse_http_date :: "string \<Rightarrow> int"
  zlib_deflate :: "string \<Rightarrow> nat \<Rightarrow> string option"

subsection \<open>Helpers of \<open>serve_file\<close>\<close>

text \<open>The loop of \<open>resolve_file_path\<close> over the routes, carrying the longest match.\<close>

fun longest_route :: "(string \<times> string) list \<Rightarrow> string \<Rightarrow> string \<times> string \<Rightarrow> string \<times> string" where
  "longest_route [] request_path best = best"
| "longest_route ((route_path, route_root) # rest) request_path (longest_match, local_root) =
     longest_route rest request_path
       (if take (length route_path) request_path = route_path
           \<and> length route_path > length longest_match
        then (route_path, route_root)
        else (longest_match, local_root))"

text \<open>
  \<open>resolve_file_path\<close>, in two steps. \<open>joined_path\<close> is the function up to and including
  the call of \<open>normalize_path\<close>: the route's local root joined with the rest of the request
  path, normalized. \<open>request_path.substr(pos)\<close> throws \<open>std::out_of_range\<close> when \<open>pos\<close>
  exceeds the length, which happens for the empty request path with the default root.
  \<open>resolve_file_path\<close> then applies \<open>is_safe_path\<close>; the empty result marks a path that
  failed it.
\<close>

definition joined_path :: "StaticFileHandler \<Rightarrow> string \<Rightarrow> error + string" where
  "joined_path h request_path =
     (let (m, r) = longest_route (routes h) request_path ([], []);
          (longest_match, local_root) = (if m = [] then (''/'', root_directory (config h)) else (m, r))
      in if length longest_match > length request_path
         then Inl (Out_of_range ''basic_string::substr'')
         else
           (let rest = drop (length longest_match) request_path;
                relative_path = (if rest = [] \<or> rest = ''/'' then ''/index.html'' else rest)
            in Inr (normalize_path (local_root @ relative_path))))"

definition resolve_file_path :: "StaticFileHandler \<Rightarrow> string \<Rightarrow> error + string" where
  "resolve_file_path h request_path =
     (case joined_path h request_path of
        Inl e \<Rightarrow> Inl e
      | Inr path \<Rightarrow> if \<not> is_safe_path path then Inr [] else Inr path)"

text \<open>The MIME table of \<open>initialize_mime_types\<close>.\<close>

definition mime_types :: "(string \<times> string) list" where
  "mime_types =
     [(''.html'', ''text/html''), (''.htm'', ''text/html''), (''.css'', ''text/css''),
      (''.js'', ''application/javascript''), (''.json'', ''application/json''),
      (''.xml'', ''text/xml''), (''.txt'', ''text/plain''),
      (''.png'', ''image/png''), (''.jpg'', ''image/jpeg''), (''.jpeg'', ''image/jpeg''),
      (''.gif'', ''image/gif''), (''.svg'', ''image/svg+xml''), (''.ico'', ''image/x-icon''),
      (''.webp'', ''image/webp''),
      (''.woff'', ''font/woff''), (''.woff2'', ''font/woff2''), (''.ttf'', ''font/ttf''),
      (''.eot'', ''application/vnd.ms-fontobject''),
      (''.mp4'', ''video/mp4''), (''.webm'', ''video/webm''), (''.ogg'', ''video/ogg''),
      (''.mp3'', ''audio/mpeg''), (''.wav'', ''audio/wav''), (''.flac'', ''audio/flac''),
      (''.zip'', ''application/zip''), (''.gz'', ''application/gzip''),
      (''.tar'', ''application/x-tar''),
      (''.pdf'', ''application/pdf''), (''.doc'', ''application/msword''),
      (''.docx'', ''application/vnd.openxmlformats-officedocument.wordprocessingml.document'')]"

definition get_mime_type :: "string \<Rightarrow> string" where
  "get_mime_type path =
     (case map_of mime_types (map tolower (get_extension path)) of
        Some t \<Rightarrow> t
      | None \<Rightarrow> ''application/octet-stream'')"

text \<open>
  \<open>generate_etag\<close>: \<open>std::hex\<close> stays set on the stream, so the hash and the time are both
  printed in hexadecimal, the time as its 64-bit two's complement when negative.
\<close>

definition generate_etag :: "platform \<Rightarrow> string \<Rightarrow> int \<Rightarrow> string" where
  "generate_etag pf path modified =
     [CHR 0x22] @ hex_nat (path_hash pf path) @ ''-'' @ hex_nat (nat (modified mod 2 ^ 64))
     @ [CHR 0x22]"

definition is_file_forbidden :: "Config \<Rightarrow> string \<Rightarrow> bool" where
  "is_file_forbidden cfg path =
     (list_ex (\<lambda>ext. ends_with path ext) (forbidden_extensions cfg)
      \<or> list_ex (\<lambda>pre. starts_with (get_filename path) pre) (hidden_prefixes cfg))"

definition should_compress :: "Config \<Rightarrow> string \<Rightarrow> nat \<Rightarrow> bool" where
  "should_compress cfg ctype fsize =
     (if \<not> enable_compression cfg \<or> fsize < compression_threshold cfg then False
      else list_ex (\<lambda>t. contains ctype t) (compression_types cfg))"

text \<open>The request headers are an unordered map that is only searched.\<close>

type_synonym request_headers = "string \<Rightarrow> string option"

definition accepts_gzip :: "request_headers \<Rightarrow> bool" where
  "accepts_gzip hdrs =
     (case hdrs ''accept-encoding'' of
        Some v \<Rightarrow> contains v ''gzip''
      | None \<Rightarrow> False)"

text \<open>
  \<open>static_utils::compress_gzip\<close> on \<open>n\<close> bytes at \<open>data\<close>: the output buffer holds
  \<open>n + n / 10 + 16\<close> bytes, and both counts pass through \<open>static_cast<uInt>\<close>
  (32 bits), so \<open>deflate\<close> reads \<open>n mod 2^32\<close> bytes. \<open>deflate\<close> rejects a null input
  pointer with a non-zero count and accepts it with the count zero, where it reads
  nothing. A pointer that is neither null nor into a mapping (\<open>nullptr + start\<close>) is
  never passed: partial content is not compressed.
\<close>

definition deflate_input :: "data_ptr \<Rightarrow> nat \<Rightarrow> string option" where
  "deflate_input ptr avail_in =
     (case ptr of
        View bytes \<Rightarrow> Some (take avail_in bytes)
      | _ \<Rightarrow> if avail_in = 0 then Some [] else None)"

definition compress_gzip :: "platform \<Rightarrow> data_ptr \<Rightarrow> nat \<Rightarrow> string" where
  "compress_gzip pf ptr n =
     (case deflate_input ptr (n mod 2 ^ 32) of
        None \<Rightarrow> []
      | Some input \<Rightarrow>
          (case zlib_deflate pf input ((n + n div 10 + 16) mod 2 ^ 32) of
             Some out \<Rightarrow> out
           | None \<Rightarrow> []))"

definition compress_content :: "platform \<Rightarrow> data_ptr \<Rightarrow> nat \<Rightarrow> string" where
  "compress_content pf ptr n = compress_gzip pf ptr n"

subsection \<open>Range header\<close>

text \<open>
  \<open>std::stoull\<close>: blanks are skipped, a sign is accepted, the longest run of digits is
  converted and whatever follows is ignored; no digit throws \<open>invalid_argument\<close>, a value
  beyond 64 bits \<open>out_of_range\<close>, and a minus sign negates modulo \<open>2^64\<close>.
\<close>

definition is_space :: "char \<Rightarrow> bool" where
  "is_space c = (c = CHR '' '' \<or> (9 \<le> byte c \<and> byte c \<le> 13))"

definition stoull :: "string \<Rightarrow> error + nat" where
  "stoull str =
     (let s1 = dropWhile is_space str;
          (neg, s2) = (case s1 of
                         [] \<Rightarrow> (False, [])
                       | c # r \<Rightarrow> if c = CHR ''-'' then (True, r)
                                  else if c = CHR ''+'' then (False, r) else (False, s1));
          ds = takeWhile is_digit s2
      in if ds = [] then Inl (Invalid_argument ''stoull'')
         else if digits_value ds \<ge> 2 ^ 64 then Inl (Out_of_range ''stoull'')
         else Inr (if neg then size_sub 0 (digits_value ds) else digits_value ds))"

text \<open>
  \<open>parse_range_header\<close>. The result is \<open>Some (start, end)\<close> when \<open>is_valid\<close> is set and
  \<open>None\<close> otherwise (the caller reads \<open>start\<close> and \<open>end\<close> only when \<open>is_valid\<close>). The three
  conversions sit in one \<open>try\<close> block whose handler leaves \<open>is_valid\<close> unset.
\<close>

definition range_bounds :: "string \<Rightarrow> string \<Rightarrow> nat \<Rightarrow> error + (nat \<times> nat)" where
  "range_bounds start_str end_str fsize =
     (if start_str = [] then
        (case stoull end_str of
           Inl e \<Rightarrow> Inl e
         | Inr suffix_length \<Rightarrow>
             Inr (if fsize > suffix_length then fsize - suffix_length else 0, size_sub fsize 1))
      else if end_str = [] then
        (case stoull start_str of
           Inl e \<Rightarrow> Inl e
         | Inr s \<Rightarrow> Inr (s, size_sub fsize 1))
      else
        (case stoull start_str of
           Inl e \<Rightarrow> Inl e
         | Inr s \<Rightarrow> (case stoull end_str of Inl e \<Rightarrow> Inl e | Inr e \<Rightarrow> Inr (s, e))))"

definition parse_range_header :: "string \<Rightarrow> nat \<Rightarrow> (nat \<times> nat) option" where
  "parse_range_header range_header fsize =
     (if \<not> starts_with range_header ''bytes='' then None
      else
        (let range_spec = drop 6 range_header
         in if CHR ''-'' \<notin> set range_spec then None
            else
              (let start_str = takeWhile (\<lambda>c. c \<noteq> CHR ''-'') range_spec;
                   end_str = drop (length start_str + 1) range_spec
               in if start_str = [] \<and> end_str = [] then None
                  else
                    (case range_bounds start_str end_str fsize of
                       Inl e \<Rightarrow> None
                     | Inr (s, e) \<Rightarrow>
                         if s < fsize \<and> e < fsize \<and> s \<le> e then Some (s, e) else None))))"

subsection \<open>Cache\<close>

definition is_valid :: "filesystem \<Rightarrow> CacheEntry \<Rightarrow> bool" where
  "is_valid fs entry = (mapped_data entry \<noteq> None \<and> fs (file_path entry) \<noteq> None)"

text \<open>
  \<open>get_cached_file\<close>: the entry found, or nothing; a stale entry is erased and its size
  subtracted. The handler is modelled without its mutex: calls do not overlap. (On the
  stale path the source ends the shared lock by an explicit destructor call before the
  lock goes out of scope, which releases it twice; that is outside the model.)
\<close>

definition get_cached_file ::
  "filesystem \<Rightarrow> StaticFileHandler \<Rightarrow> string \<Rightarrow> CacheEntry option \<times> StaticFileHandler" where
  "get_cached_file fs h path =
     (case map_of (cache h) path of
        None \<Rightarrow> (None, h)
      | Some entry \<Rightarrow>
          if is_valid fs entry then (Some entry, h)
          else (None, h\<lparr>cache := AList.delete path (cache h),
                       current_cache_size := size_sub (current_cache_size h) (file_size entry)\<rparr>))"

text \<open>
  \<open>std::sort\<close> on pairs (time, path): by time, then by path in byte order. The paths are
  the keys of the cache, so no two pairs compare equal.
\<close>

fun string_less :: "string \<Rightarrow> string \<Rightarrow> bool" where
  "string_less [] [] = False"
| "string_less [] (y # ys) = True"
| "string_less (x # xs) [] = False"
| "string_less (x # xs) (y # ys) = (byte x < byte y \<or> (byte x = byte y \<and> string_less xs ys))"

definition entry_less :: "nat \<times> string \<Rightarrow> nat \<times> string \<Rightarrow> bool" where
  "entry_less a b = (fst a < fst b \<or> (fst a = fst b \<and> string_less (snd a) (snd b)))"

fun insert_entry :: "nat \<times> string \<Rightarrow> (nat \<times> string) list \<Rightarrow> (nat \<times> string) list" where
  "insert_entry a [] = [a]"
| "insert_entry a (b # bs) = (if entry_less b a then b # insert_entry a bs else a # b # bs)"

fun sort_entries :: "(nat \<times> string) list \<Rightarrow> (nat \<times> string) list" where
  "sort_entries [] = []"
| "sort_entries (a # as) = insert_entry a (sort_entries as)"

text \<open>
  The eviction loop of \<open>evict_lru_entries\<close> over the sorted pairs, with \<open>freed_bytes\<close>.
  Every path comes from the cache, so the lookup finds it.
\<close>

fun evict_loop :: "(nat \<times> string) list \<Rightarrow> nat \<Rightarrow> nat \<Rightarrow> StaticFileHandler \<Rightarrow> StaticFileHandler" where
  "evict_loop [] freed_bytes bytes_needed h = h"
| "evict_loop ((t, path) # rest) freed_bytes bytes_needed h =
     (case map_of (cache h) path of
        None \<Rightarrow> evict_loop rest freed_bytes bytes_needed h
      | Some entry \<Rightarrow>
          (let freed = freed_bytes + file_size entry;
               h' = h\<lparr>cache := AList.delete path (cache h),
                      current_cache_size := size_sub (current_cache_size h) (file_size entry)\<rparr>
           in if freed \<ge> bytes_needed then h' else evict_loop rest freed bytes_needed h'))"

definition evict_lru_entries :: "StaticFileHandler \<Rightarrow> nat \<Rightarrow> StaticFileHandler" where
  "evict_lru_entries h bytes_needed =
     evict_loop (sort_entries (map (\<lambda>p. (last_accessed (snd p), fst p)) (cache h)))
       0 bytes_needed h"

definition max_cache_bytes :: "Config \<Rightarrow> nat" where
  "max_cache_bytes cfg = max_cache_size_mb cfg * 1024 * 1024"

definition max_file_bytes :: "Config \<Rightarrow> nat" where
  "max_file_bytes cfg = max_file_size_mb cfg * 1024 * 1024"

definition cache_file :: "StaticFileHandler \<Rightarrow> string \<Rightarrow> CacheEntry \<Rightarrow> StaticFileHandler" where
  "cache_file h path entry =
     (let h1 = (if current_cache_size h + file_size entry > max_cache_bytes (config h)
                then evict_lru_entries h (file_size entry) else h)
      in h1\<lparr>cache := umap_assign (cache h1) path entry,
            current_cache_size := current_cache_size h1 + file_size entry\<rparr>)"

subsection \<open>\<open>serve_file\<close>\<close>

text \<open>
  \<open>serve_file\<close> is one function in the source; the model cuts its \<open>try\<close> block into the
  stages it runs through. \<open>now\<close> is the reading of the steady clock when the entry is
  touched, \<open>elapsed\<close> the measured duration. A \<open>return\<close> inside the \<open>try\<close> block leaves
  without the statistics update at the end of the function; \<open>finish\<close> is that update.
  The entry is shared between the cache and the request through a \<open>shared_ptr\<close>:
  \<open>cached\<close> tells whether the cache holds it, and what the request writes to it is
  then written to the cache.
\<close>

definition finish :: "nat \<Rightarrow> ServeResult \<Rightarrow> StaticFileHandler \<Rightarrow> ServeResult \<times> StaticFileHandler" where
  "finish elapsed res h =
     (res,
      h\<lparr>stats := (stats h)\<lparr>files_served := files_served (stats h) + 1,
                              bytes_served := bytes_served (stats h) + content_length res,
                              total_serve_time_us := total_serve_time_us (stats h) + elapsed\<rparr>\<rparr>)"

definition ptr_of :: "string option \<Rightarrow> data_ptr" where
  "ptr_of m = (case m of None \<Rightarrow> Null_ptr | Some bytes \<Rightarrow> View bytes)"

definition ptr_add :: "string option \<Rightarrow> nat \<Rightarrow> data_ptr" where
  "ptr_add m off =
     (case m of
        None \<Rightarrow> if off = 0 then Null_ptr else Null_plus off
      | Some bytes \<Rightarrow> View (drop off bytes))"

text \<open>From \<open>// Set response metadata\<close> to the end of the function.\<close>

definition serve_body ::
  "platform \<Rightarrow> nat \<Rightarrow> nat \<Rightarrow> request_headers \<Rightarrow> string \<Rightarrow> int \<Rightarrow> string \<Rightarrow> CacheEntry \<Rightarrow> bool
   \<Rightarrow> ServeResult \<Rightarrow> StaticFileHandler \<Rightarrow> ServeResult \<times> StaticFileHandler" where
  "serve_body pf now elapsed hdrs path modified tag entry cached res h =
     (let res1 = res\<lparr>res_content_type := content_type entry, res_etag := tag,
                     res_last_modified := modified\<rparr>;
          should_compress_file = should_compress (config h) (res_content_type res1) (content_length res1);
          client_accepts_gzip = accepts_gzip hdrs;
          (entry2, res2, h2) =
            (if should_compress_file \<and> client_accepts_gzip \<and> \<not> is_partial_content res1 then
               (let entry1 = (if compressed_data entry = []
                              then entry\<lparr>compressed_data :=
                                           compress_content pf (data res1) (content_length res1),
                                         is_compressed := True\<rparr>
                              else entry)
                in if compressed_data entry1 \<noteq> [] then
                     (entry1,
                      res1\<lparr>string_data := compressed_data entry1,
                           data := View (compressed_data entry1),
                           content_length := length (compressed_data entry1),
                           res_content_type := res_content_type res1 @ ''; charset=utf-8''\<rparr>,
                      h\<lparr>stats := (stats h)\<lparr>files_compressed := files_compressed (stats h) + 1\<rparr>\<rparr>)
                   else (entry1, res1, h))
             else (entry, res1, h));
          entry3 = entry2\<lparr>last_accessed := now, access_count := access_count entry2 + 1\<rparr>;
          h3 = (if cached then h2\<lparr>cache := umap_assign (cache h2) path entry3\<rparr> else h2)
      in finish elapsed (res2\<lparr>status := SUCCESS\<rparr>) h3)"

text \<open>\<open>// Handle range requests\<close>.\<close>

definition serve_range ::
  "platform \<Rightarrow> nat \<Rightarrow> nat \<Rightarrow> request_headers \<Rightarrow> string \<Rightarrow> nat \<Rightarrow> int \<Rightarrow> string \<Rightarrow> CacheEntry \<Rightarrow> bool
   \<Rightarrow> StaticFileHandler \<Rightarrow> ServeResult \<times> StaticFileHandler" where
  "serve_range pf now elapsed hdrs path fsize modified tag entry cached h =
     (case (if enable_range_requests (config h) then hdrs ''range'' else None) of
        Some range_header \<Rightarrow>
          (case parse_range_header range_header fsize of
             Some (s, e) \<Rightarrow>
               serve_body pf now elapsed hdrs path modified tag entry cached
                 (new_ServeResult\<lparr>is_partial_content := True, range_start := s, range_end := e,
                                  total_size := fsize, content_length := e - s + 1,
                                  data := ptr_add (mapped_data entry) s\<rparr>)
                 (h\<lparr>stats := (stats h)\<lparr>range_requests := range_requests (stats h) + 1\<rparr>\<rparr>)
           | None \<Rightarrow> (new_ServeResult\<lparr>status := RANGE_NOT_SATISFIABLE\<rparr>, h))
      | None \<Rightarrow>
          serve_body pf now elapsed hdrs path modified tag entry cached
            (new_ServeResult\<lparr>content_length := fsize, data := ptr_of (mapped_data entry)\<rparr>) h)"

text \<open>\<open>// Get cached file or load it\<close>.\<close>

definition serve_lookup ::
  "platform \<Rightarrow> filesystem \<Rightarrow> nat \<Rightarrow> nat \<Rightarrow> request_headers \<Rightarrow> string \<Rightarrow> disk_file \<Rightarrow> string
   \<Rightarrow> StaticFileHandler \<Rightarrow> ServeResult \<times> StaticFileHandler" where
  "serve_lookup pf fs now elapsed hdrs path f tag h =
     (let fsize = length (content f);
          modified = mtime f;
          (found, h1) = get_cached_file fs h path
      in case found of
           Some entry \<Rightarrow>
             serve_range pf now elapsed hdrs path fsize modified tag entry True
               (h1\<lparr>stats := (stats h1)\<lparr>cache_hits := cache_hits (stats h1) + 1\<rparr>\<rparr>)
         | None \<Rightarrow>
             (let entry = \<lparr>file_path = path, content_type = get_mime_type path, etag = tag,
                           last_modified = modified, file_size = fsize, mapped_data = None,
                           mapped_size = 0, last_accessed = 0, access_count = 0,
                           is_compressed = False, compressed_data = []\<rparr>
              in if fsize \<le> max_file_bytes (config h1) then
                   (case map_file f of
                      Some bytes \<Rightarrow>
                        (let mapped = entry\<lparr>mapped_data := Some bytes, mapped_size := length bytes\<rparr>;
                             h2 = cache_file h1 path mapped
                         in serve_range pf now elapsed hdrs path fsize modified tag mapped True
                              (h2\<lparr>stats := (stats h2)\<lparr>cache_misses := cache_misses (stats h2) + 1\<rparr>\<rparr>))
                    | None \<Rightarrow> (new_ServeResult\<lparr>status := INTERNAL_ERROR\<rparr>, h1))
                 else
                   serve_range pf now elapsed hdrs path fsize modified tag entry False
                     (h1\<lparr>stats := (stats h1)\<lparr>cache_misses := cache_misses (stats h1) + 1\<rparr>\<rparr>)))"

definition not_modified :: "string \<Rightarrow> int \<Rightarrow> StaticFileHandler \<Rightarrow> ServeResult \<times> StaticFileHandler" where
  "not_modified tag modified h =
     (new_ServeResult\<lparr>status := NOT_MODIFIED, res_etag := tag, res_last_modified := modified\<rparr>,
      h\<lparr>stats := (stats h)\<lparr>not_modified_responses := not_modified_responses (stats h) + 1\<rparr>\<rparr>)"

definition serve_file ::
  "platform \<Rightarrow> filesystem \<Rightarrow> nat \<Rightarrow> nat \<Rightarrow> string \<Rightarrow> request_headers \<Rightarrow> StaticFileHandler
   \<Rightarrow> ServeResult \<times> StaticFileHandler" where
  "serve_file pf fs now elapsed request_path hdrs h =
     (case resolve_file_path h request_path of
        Inl e \<Rightarrow> finish elapsed (new_ServeResult\<lparr>status := INTERNAL_ERROR\<rparr>) h
      | Inr path \<Rightarrow>
          if path = [] then (new_ServeResult\<lparr>status := NOT_FOUND\<rparr>, h)
          else if is_file_forbidden (config h) path then (new_ServeResult\<lparr>status := FORBIDDEN\<rparr>, h)
          else
            (case fs path of
               None \<Rightarrow> (new_ServeResult\<lparr>status := NOT_FOUND\<rparr>, h)
             | Some f \<Rightarrow>
                 (let modified = mtime f;
                      tag = generate_etag pf path modified
                  in if hdrs ''if-none-match'' = Some tag then not_modified tag modified h
                     else if (case hdrs ''if-modified-since'' of
                                Some d \<Rightarrow> modified \<le> parse_http_date pf d
                              | None \<Rightarrow> False)
                     then not_modified tag modified h
                     else serve_lookup pf fs now elapsed hdrs path f tag h)))"

text \<open>
  A sequence of requests. Each one comes with the state of the file system and the clock
  readings at the time it is served.
\<close>

record request =
  req_fs :: filesystem
  req_now :: nat
  req_elapsed :: nat
  req_path :: string
  req_headers :: request_headers

fun serve_all :: "platform \<Rightarrow> request list \<Rightarrow> StaticFileHandler \<Rightarrow> StaticFileHandler" where
  "serve_all pf [] h = h"
| "serve_all pf (r # rs) h =
     serve_all pf rs
       (snd (serve_file pf (req_fs r) (req_now r) (req_elapsed r) (req_path r) (req_headers r) h))"

text \<open>The sum of \<open>file_size\<close> over the entries of the cache index.\<close>

definition cached_bytes :: "StaticFileHandler \<Rightarrow> nat" where
  "cached_bytes h = sum_list (map (\<lambda>p. file_size (snd p)) (cache h))"

section \<open>Inputs used in the static handler theorems\<close>

text \<open>
  A platform for the closed examples: the hash of a path is its length, every date
  parses to the epoch, and \<open>deflate\<close> stores the input behind a ten-byte header and before
  an eight-byte trailer when the buffer has room for it.
\<close>

definition sample_hash :: "string \<Rightarrow> nat" where
  "sample_hash path = length path"

definition sample_date :: "string \<Rightarrow> int" where
  "sample_date str = 0"

definition sample_deflate :: "string \<Rightarrow> nat \<Rightarrow> string option" where
  "sample_deflate input capacity =
     (if length input + 18 \<le> capacity
      then Some (replicate 10 (CHR ''h'') @ input @ replicate 8 (CHR ''t''))
      else None)"

definition sample_platform :: platform where
  "sample_platform =
     \<lparr>path_hash = sample_hash, parse_http_date = sample_date, zlib_deflate = sample_deflate\<rparr>"

text \<open>A request without headers, and one with a single header.\<close>

definition no_headers :: request_headers where
  "no_headers name = None"

definition one_header :: "string \<Rightarrow> string \<Rightarrow> request_headers" where
  "one_header key val name = (if name = key then Some val else None)"

text \<open>A file system without files, and one with a single regular file.\<close>

definition no_files :: filesystem where
  "no_files path = None"

definition one_file :: "string \<Rightarrow> disk_file \<Rightarrow> filesystem" where
  "one_file loc f path = (if path = loc then Some f else None)"

text \<open>The handler of the scenarios: default configuration, route \<open>/static\<close> to \<open>./static\<close>.\<close>

definition scenario_handler :: StaticFileHandler where
  "scenario_handler = add_route (new_StaticFileHandler default_Config) ''/static'' ''./static''"

definition ten_bytes :: disk_file where
  "ten_bytes = \<lparr>mtime = 1000, content = ''0123456789'', mappable = True\<rparr>"

definition page_html :: disk_file where
  "page_html = \<lparr>mtime = 1000, content = replicate 2048 (CHR ''x''), mappable = True\<rparr>"

text \<open>
  A handler whose cache limit is below its file limit: \<open>max_cache_size_mb = 1\<close> with the
  default \<open>max_file_size_mb = 100\<close>; and one that caches no file: \<open>max_file_size_mb = 0\<close>.
\<close>

definition small_cache_handler :: StaticFileHandler where
  "small_cache_handler =
     add_route (new_StaticFileHandler (default_Config\<lparr>max_cache_size_mb := 1\<rparr>))
       ''/static'' ''./static''"

definition no_cache_handler :: StaticFileHandler where
  "no_cache_handler =
     add_route (new_StaticFileHandler (default_Config\<lparr>max_file_size_mb := 0\<rparr>))
       ''/static'' ''./static''"

text \<open>A file of two megabytes, and the request for it.\<close>

definition two_megabytes :: disk_file where
  "two_megabytes = \<lparr>mtime = 1000, content = replicate 2097152 (CHR ''x''), mappable = True\<rparr>"

definition big_request :: request where
  "big_request = \<lparr>req_fs = one_file ''static/a.txt'' two_megabytes, req_now = 5, req_elapsed = 7,
     req_path = ''/static/a.txt'', req_headers = no_headers\<rparr>"

text \<open>
  A request for \<open>page.html\<close> from a client that accepts gzip; what \<open>sample_deflate\<close> makes
  of the page; and the cache entry and the handler that the first such request leaves
  behind.
\<close>

definition gzip_headers :: request_headers where
  "gzip_headers = one_header ''accept-encoding'' ''gzip''"

definition page_request :: request where
  "page_request = \<lparr>req_fs = one_file ''static/page.html'' page_html, req_now = 5, req_elapsed = 7,
     req_path = ''/static/page.html'', req_headers = gzip_headers\<rparr>"




section \<open>Conditions used in the static handler theorems\<close>

text \<open>
  The request passes every check that \<open>serve_file\<close> makes before it looks into the cache:
  the path resolves to \<open>path\<close>, which is not the empty marker of a rejected path and not
  forbidden, \<open>f\<close> is the regular file there, and neither \<open>if-none-match\<close> nor
  \<open>if-modified-since\<close> answers the request with \<open>NOT_MODIFIED\<close>.
\<close>

definition passes_checks ::
  "platform \<Rightarrow> filesystem \<Rightarrow> request_headers \<Rightarrow> StaticFileHandler \<Rightarrow> string \<Rightarrow> string \<Rightarrow> disk_file \<Rightarrow> bool" where
  "passes_checks pf fs hdrs h request_path path f =
     (resolve_file_path h request_path = Inr path \<and> path \<noteq> []
      \<and> \<not> is_file_forbidden (config h) path
      \<and> fs path = Some f
      \<and> hdrs ''if-none-match'' \<noteq> Some (generate_etag pf path (mtime f))
      \<and> (case hdrs ''if-modified-since'' of
            Some d \<Rightarrow> \<not> mtime f \<le> parse_http_date pf d
          | None \<Rightarrow> True))"

text \<open>
  The request is served from a mapping holding \<open>bytes\<close>: that of the cache entry for the
  path, or, without an entry, the one made from the file, which then is not larger than
  \<open>max_file_size\<close>.
\<close>

definition mapping_available ::
  "StaticFileHandler \<Rightarrow> string \<Rightarrow> disk_file \<Rightarrow> string \<Rightarrow> bool" where
  "mapping_available h path f bytes =
     (case map_of (cache h) path of
        None \<Rightarrow> length (content f) \<le> max_file_bytes (config h) \<and> map_file f = Some bytes
      | Some entry \<Rightarrow> file_path entry = path \<and> mapped_data entry = Some bytes)"


text \<open>A non-empty run of decimal digits.\<close>

definition is_number :: "string \<Rightarrow> bool" where
  "is_number ds = (ds \<noteq> [] \<and> list_all is_digit ds)"

text \<open>
  The cache index has one entry for each key and its sizes add up to \<open>current_cache_size\<close>;
  and, in addition, \<open>current_cache_size\<close> is within the limit of the configuration.
\<close>

definition cache_sum_ok :: "StaticFileHandler \<Rightarrow> bool" where
  "cache_sum_ok h = (distinct (map fst (cache h)) \<and> cached_bytes h = current_cache_size h)"

definition cache_within_limit :: "StaticFileHandler \<Rightarrow> bool" where
  "cache_within_limit h =
     (cache_sum_ok h \<and> current_cache_size h \<le> max_cache_bytes (config h))"

section \<open>Theorems: JSON values\<close>

lemma obind_simps [simp]:
  "obind (Done x) f = f x"
  "obind (Throw e) f = Throw e"
  "obind Out_of_fuel f = Out_of_fuel"
  by (simp_all add: obind_def)

lemma umap_subscript_empty: "umap_subscript d [] k = ([(k, d)], d)"
  by (simp add: umap_subscript_def)

lemma assign_chain_null:
  "\<exists>r. assign_chain JsonNull ks x = Inr r \<and> lookup_chain r ks = Some x"
proof (induction ks)
  case Nil
  show ?case by simp
next
  case (Cons k ks)
  then obtain r where r: "assign_chain JsonNull ks x = Inr r" "lookup_chain r ks = Some x"
    by blast
  have "assign_chain JsonNull (k # ks) x = Inr (JsonObject [(k, r)])"
    by (simp add: JsonValue_subscript_def umap_subscript_def umap_assign_def r)
  moreover have "lookup_chain (JsonObject [(k, r)]) (k # ks) = Some x"
    by (simp add: r)
  ultimately show ?case by simp
qed

lemma set_all_object: "\<exists>obj'. set_all (JsonObject obj) kvs = Inr (JsonObject obj')"
proof (induction kvs arbitrary: obj)
  case Nil
  show ?case by simp
next
  case (Cons kv kvs)
  obtain k x where kv: "kv = (k, x)" by (cases kv)
  show ?case using Cons [of "umap_assign obj k x"]
    by (simp add: kv JsonValue_set_def)
qed

lemma set_all_null: "\<exists>r. set_all JsonNull kvs = Inr r"
proof (cases kvs)
  case Nil
  then show ?thesis by simp
next
  case (Cons kv rest)
  obtain k x where kv: "kv = (k, x)" by (cases kv)
  show ?thesis using set_all_object [of "umap_assign [] k x" rest]
    by (auto simp: Cons kv JsonValue_set_def)
qed

text \<open>
  Claim C10. The mutating \<open>operator[](key)\<close> and \<open>set(key, value)\<close> turn a null value
  into an object holding just that key; on a bool, a number, a string or an array they
  throw \<open>runtime_error\<close>. Hence a chain of index assignments \<open>v[k1]...[kn] = x\<close> that starts
  from a default-constructed (null) value succeeds for every path, and the value can be
  read back along the path; a sequence of \<open>set\<close> calls on it succeeds as well.
\<close>

theorem null_converts_to_object_others_throw:
  "JsonValue_subscript JsonNull key = Inr ([(key, JsonNull)], JsonNull)
   \<and> JsonValue_set JsonNull key x = Inr (JsonObject [(key, x)])
   \<and> JsonValue_subscript (JsonBool b) key = Inl (Runtime_error ''JsonValue is not an object'')
   \<and> JsonValue_subscript (JsonNumber num) key = Inl (Runtime_error ''JsonValue is not an object'')
   \<and> JsonValue_subscript (JsonString str) key = Inl (Runtime_error ''JsonValue is not an object'')
   \<and> JsonValue_subscript (JsonArray arr) key = Inl (Runtime_error ''JsonValue is not an object'')
   \<and> JsonValue_set (JsonBool b) key x = Inl (Runtime_error ''JsonValue is not an object'')
   \<and> JsonValue_set (JsonNumber num) key x = Inl (Runtime_error ''JsonValue is not an object'')
   \<and> JsonValue_set (JsonString str) key x = Inl (Runtime_error ''JsonValue is not an object'')
   \<and> JsonValue_set (JsonArray arr) key x = Inl (Runtime_error ''JsonValue is not an object'')
   \<and> (\<exists>r. assign_chain JsonNull ks x = Inr r \<and> lookup_chain r ks = Some x)
   \<and> (\<exists>r. set_all JsonNull kvs = Inr r)"
  using assign_chain_null [of ks x] set_all_null [of kvs]
  by (simp add: JsonValue_subscript_def JsonValue_set_def umap_subscript_def umap_assign_def)

section \<open>Theorems: JSON parser\<close>

lemma skip_whitespace_solid:
  "\<not> is_whitespace c \<Longrightarrow> c \<noteq> CHR ''/'' \<Longrightarrow> skip_whitespace cfg (Suc (Suc n)) (c # s) = Done (c # s)"
  by (simp add: skip_whitespace_simd_def Let_def split: list.splits)

lemma skip_whitespace_nil: "skip_whitespace cfg (Suc (Suc n)) [] = Done []"
  by (simp add: skip_whitespace_simd_def Let_def)

lemma skip_open: "skip_whitespace cfg (Suc (Suc n)) (CHR ''['' # s) = Done (CHR ''['' # s)"
  by (rule skip_whitespace_solid) (simp_all add: is_whitespace_def)

lemma skip_close: "skip_whitespace cfg (Suc (Suc n)) (CHR '']'' # s) = Done (CHR '']'' # s)"
  by (rule skip_whitespace_solid) (simp_all add: is_whitespace_def)

lemma parse_empty_array:
  "parse_value cfg (Suc (Suc (Suc (Suc n)))) (CHR ''['' # CHR '']'' # rest) = Done (JsonArray [], rest)"
  by (simp add: parse_value_body_def parse_array_body_def skip_open skip_close
      del: skip_whitespace.simps)

lemma parse_array_around:
  assumes "parse_value cfg (Suc (Suc m)) (CHR ''['' # s) = Done (v, CHR '']'' # rest)"
  shows "parse_value cfg (Suc (Suc (Suc (Suc (Suc m))))) (CHR ''['' # CHR ''['' # s) = Done (JsonArray [v], rest)"
proof -
  have loop: "parse_array_loop cfg (Suc (Suc (Suc m))) [] (CHR ''['' # s) = Done (JsonArray [v], rest)"
    using assms
    by (simp add: parse_array_loop_body_def skip_close del: skip_whitespace.simps parse_value.simps)
  have arr: "parse_array cfg (Suc (Suc (Suc (Suc m)))) (CHR ''['' # CHR ''['' # s) = Done (JsonArray [v], rest)"
    using loop
    by (simp add: parse_array_body_def skip_open
        del: skip_whitespace.simps parse_array_loop.simps)
  show ?thesis
    using arr
    by (simp add: parse_value_body_def skip_open del: skip_whitespace.simps parse_array.simps)
qed

lemma nested_replicate:
  "nested n rest = replicate (Suc n) (CHR ''['') @ replicate (Suc n) (CHR '']'') @ rest"
proof (induction n arbitrary: rest)
  case 0
  show ?case by simp
next
  case (Suc n)
  have "replicate (Suc n) (CHR '']'') @ CHR '']'' # rest = replicate (Suc (Suc n)) (CHR '']'') @ rest"
    by (simp only: replicate_app_Cons_same) simp
  then show ?case by (simp add: Suc)
qed

lemma nested_Cons: "\<exists>t. nested n rest = CHR ''['' # t"
  by (cases n) simp_all

lemma parse_value_nested:
  "parse_value cfg (Suc (Suc (Suc (Suc (3 * n + k))))) (nested n rest) = Done (nest n, rest)"
proof (induction n arbitrary: k rest)
  case 0
  show ?case using parse_empty_array [of cfg k rest] by simp
next
  case (Suc n)
  obtain t where t: "nested n (CHR '']'' # rest) = CHR ''['' # t"
    using nested_Cons by blast
  have "parse_value cfg (Suc (Suc (Suc (Suc (3 * n + k))))) (CHR ''['' # t) = Done (nest n, CHR '']'' # rest)"
    using Suc [of k "CHR '']'' # rest"] by (simp only: t)
  from parse_array_around [OF this]
  have "parse_value cfg (Suc (Suc (Suc (Suc (Suc (Suc (Suc (3 * n + k)))))))) (CHR ''['' # CHR ''['' # t)
          = Done (JsonArray [nest n], rest)" .
  moreover have "Suc (Suc (Suc (Suc (3 * Suc n + k)))) = Suc (Suc (Suc (Suc (Suc (Suc (Suc (3 * n + k)))))))"
    by simp
  ultimately show ?case
    by (simp only: nested.simps nest.simps t)
qed

text \<open>
  Claim C5 states that an input nested deeper than \<open>max_depth\<close> makes \<open>parse\<close> report an
  error and count it in \<open>parse_errors\<close>. The parser never reads \<open>max_depth\<close>: for every
  configuration and every \<open>n\<close>, the text of \<open>n + 1\<close> nested arrays parses to the nested
  value, is counted in \<open>documents_parsed\<close>, and leaves \<open>parse_errors\<close> as it was. With the
  default configuration (\<open>max_depth = 100\<close>) and \<open>n = 100\<close> the input is 101 deep.
\<close>

theorem parse_ignores_max_depth:
  "parse cfg elapsed st (replicate (Suc n) (CHR ''['') @ replicate (Suc n) (CHR '']''))
     = (Done (nest n),
        st\<lparr>documents_parsed := documents_parsed st + 1,
              total_parse_time_ns := total_parse_time_ns st + elapsed,
              bytes_parsed := bytes_parsed st + 2 * Suc n\<rparr>)"
proof -
  define s where "s = nested n []"
  have s_rep: "replicate (Suc n) (CHR ''['') @ replicate (Suc n) (CHR '']'') = s"
    by (simp add: s_def nested_replicate)
  obtain t where t: "s = CHR ''['' # t"
    unfolding s_def using nested_Cons by blast
  have ne: "s \<noteq> []"
    using t by simp
  have len: "length s = 2 * Suc n"
    unfolding s_rep [symmetric] by simp
  have fuel: "parse_fuel s = Suc (Suc (Suc (Suc (3 * n + (3 * n + 7)))))"
    by (simp add: parse_fuel_def len)
  have sk1: "skip_whitespace cfg (parse_fuel s) s = Done s"
    unfolding fuel by (simp only: t skip_open)
  have pv: "parse_value cfg (parse_fuel s) s = Done (nest n, [])"
    unfolding fuel unfolding s_def by (rule parse_value_nested)
  have sk2: "skip_whitespace cfg (parse_fuel s) [] = Done []"
    unfolding fuel by (rule skip_whitespace_nil)
  have "parse cfg elapsed st s
     = (Done (nest n),
        st\<lparr>documents_parsed := documents_parsed st + 1,
              total_parse_time_ns := total_parse_time_ns st + elapsed,
              bytes_parsed := bytes_parsed st + length s\<rparr>)"
    unfolding parse_def Let_def sk1 obind_simps
    by (simp add: pv sk2 ne)
  then show ?thesis
    unfolding s_rep len .
qed

section \<open>Theorems: JSON serializer\<close>

lemma skip_whitespace_default:
  "skip_whitespace default_ParserConfig (Suc n) s = Done (dropWhile is_whitespace s)"
  by (simp add: default_ParserConfig_def skip_whitespace_simd_def)

lemma bit_length_one: "bit_length (Suc 0) = Suc 0"
  by (simp add: bit_length.simps [of "Suc 0"] bit_length.simps [of 0])

lemma stod_one: "stod_token False ''1'' [] False [] = Inr 1"
proof -
  have d: "decimal_value False ''1'' [] False [] = 1"
    by (simp add: decimal_value_def digits_value_def digit_value_def byte_def)
  have e: "binary_exponent 1 = 0"
    by (simp add: binary_exponent_def bit_length_one pow2_def)
  have r: "round_to_grid (- 52) 1 = 1"
    by (simp add: round_to_grid_def round_half_even_def pow2_def)
  show ?thesis
    by (simp add: stod_token_def d strtod_value_def e r pow2_def)
qed

lemma parse_value_example:
  "parse_value default_ParserConfig (Suc (Suc (Suc (Suc (Suc (Suc (Suc (Suc (Suc (Suc (Suc (Suc k))))))))))))
     example_document = Done (example_value, [])"
  by (simp add: example_document_def example_value_def dq_def skip_whitespace_default
       parse_value_body_def parse_object_body_def parse_object_loop_body_def parse_array_body_def
       parse_array_loop_body_def is_whitespace_def no_quote_ahead_def lift_def parse_string_def
       as_string_def parse_number_def number_fraction_def number_exponent_def no_digit_ahead_def
       number_value_def stod_one byte_def is_digit_def parse_literal_def
       starts_with_def umap_assign_def cons_result_def
       del: skip_whitespace.simps)

lemma parse_example: "parse default_ParserConfig elapsed st example_document
   = (Done example_value,
      st\<lparr>documents_parsed := documents_parsed st + 1,
            total_parse_time_ns := total_parse_time_ns st + elapsed,
            bytes_parsed := bytes_parsed st + 32\<rparr>)"
proof -
  have len: "length example_document = 32"
    by (simp add: example_document_def)
  have fuel: "parse_fuel example_document = Suc (Suc (Suc (Suc (Suc (Suc (Suc (Suc (Suc (Suc (Suc (Suc 89)))))))))))"
    by (simp add: parse_fuel_def len)
  have ne: "example_document \<noteq> []"
    using len by auto
  have sk1: "skip_whitespace default_ParserConfig (parse_fuel example_document) example_document
      = Done example_document"
    unfolding fuel skip_whitespace_default by (simp add: example_document_def is_whitespace_def)
  have pv: "parse_value default_ParserConfig (parse_fuel example_document) example_document
      = Done (example_value, [])"
    unfolding fuel by (rule parse_value_example)
  have sk2: "skip_whitespace default_ParserConfig (parse_fuel example_document) [] = Done []"
    unfolding fuel skip_whitespace_default by simp
  show ?thesis
    unfolding parse_def Let_def sk1 obind_simps
    by (simp add: pv sk2 ne len)
qed

lemma compact_default: "pretty_print default_SerializerConfig = False"
  by (simp add: default_SerializerConfig_def)

lemma object_members_rest:
  "object_members cfg depth False ms
     = concat (map (\<lambda>m. ('','' @ (if pretty_print cfg then [CHR 0x0A] else []))
                          @ member_text cfg depth m) ms)"
  by (induction ms) (auto simp: member_text_def)

lemma join_with_Cons: "join_with sep (x # xs) = x @ concat (map (\<lambda>y. sep @ y) xs)"
  by (induction xs arbitrary: x) auto

lemma object_members_join:
  "object_members cfg depth True ms
     = join_with ('','' @ (if pretty_print cfg then [CHR 0x0A] else []))
         (map (member_text cfg depth) ms)"
proof (cases ms)
  case Nil
  then show ?thesis by simp
next
  case (Cons m rest)
  have "object_members cfg depth True (m # rest)
      = member_text cfg depth m @ object_members cfg depth False rest"
    by (cases m) (simp add: member_text_def)
  then show ?thesis
    by (simp add: Cons object_members_rest join_with_Cons comp_def)
qed

lemma umap_iterate_keys:
  "set (ord (map fst obj)) \<subseteq> set (map fst obj) \<Longrightarrow> map fst (umap_iterate ord obj) = ord (map fst obj)"
proof -
  have "set ks \<subseteq> set (map fst obj) \<Longrightarrow>
        map fst (List.map_filter (\<lambda>k. map_option (Pair k) (map_of obj k)) ks) = ks" for ks
  proof (induction ks)
    case Nil
    show ?case by (simp add: List.map_filter_simps)
  next
    case (Cons k ks)
    then have "k \<in> fst ` set obj" by auto
    then obtain v where "map_of obj k = Some v"
      by (metis domD dom_map_of_conv_image_fst)
    with Cons show ?case by (simp add: List.map_filter_simps)
  qed
  then show "set (ord (map fst obj)) \<subseteq> set (map fst obj) \<Longrightarrow> ?thesis"
    by (simp add: umap_iterate_def)
qed

lemma umap_iterate_members:
  assumes "distinct (map fst obj)" "lists_each_once ord (map fst obj)"
  shows "set (umap_iterate ord obj) = set obj"
proof
  show "set (umap_iterate ord obj) \<subseteq> set obj"
    by (auto simp: umap_iterate_def List.map_filter_def dest: map_of_SomeD)
  show "set obj \<subseteq> set (umap_iterate ord obj)"
  proof
    fix m
    assume m: "m \<in> set obj"
    then have "map_of obj (fst m) = Some (snd m)"
      using assms(1) by (simp add: map_of_eq_Some_iff)
    moreover have "fst m \<in> set (ord (map fst obj))"
      using m assms(2) by (simp add: lists_each_once_def)
    ultimately show "m \<in> set (umap_iterate ord obj)"
      by (force simp: umap_iterate_def List.map_filter_def image_iff)
  qed
qed

lemma serialize_example_forward:
  assumes "ord [''a'', ''b''] = [''a'', ''b'']"
  shows "serialize ord fmt default_SerializerConfig example_value = insertion_ordered_text"
  using assms
  by (simp add: serialize_def example_value_def umap_iterate_def
      serialize_number_def to_string_def to_string_nat.simps digit_char_def serialize_array_def
      serialize_object_def
      insertion_ordered_text_def serialize_string_def escape_string_def escape_char_def
      needs_escaping_def schar_def byte_def dq_def compact_default)

lemma serialize_example_backward:
  assumes "ord [''a'', ''b''] = [''b'', ''a'']"
  shows "serialize ord fmt default_SerializerConfig example_value = reversed_text"
  using assms
  by (simp add: serialize_def example_value_def umap_iterate_def
      serialize_number_def to_string_def to_string_nat.simps digit_char_def serialize_array_def
      serialize_object_def
      reversed_text_def serialize_string_def escape_string_def escape_char_def
      needs_escaping_def schar_def byte_def dq_def compact_default)

text \<open>
  Claim C4 states that an object is serialized in insertion order, so that the scenario
  document comes back as the text with \<open>a\<close> before \<open>b\<close>. \<open>JsonObject\<close> is a
  \<open>std::unordered_map\<close>, and the loop of \<open>serialize_object\<close> follows the iteration order
  of that container. A container that links each new node at the head of its element
  list (as the hash table of libstdc++ does) iterates the two members in the reverse of
  their insertion order, which is the iteration order \<open>rev\<close>: the document parses, and
  its compact text has \<open>b\<close> before \<open>a\<close>.
\<close>

theorem object_text_reversed:
  "fst (parse default_ParserConfig 0 initial_ParserStats example_document) = Done example_value
   \<and> serialize rev plain_fmt default_SerializerConfig example_value = reversed_text
   \<and> serialize rev plain_fmt default_SerializerConfig example_value \<noteq> insertion_ordered_text"
proof -
  have a: "serialize rev plain_fmt default_SerializerConfig example_value = reversed_text"
    by (rule serialize_example_backward) simp
  have b: "reversed_text \<noteq> insertion_ordered_text"
    by (simp add: reversed_text_def insertion_ordered_text_def)
  show ?thesis using a b by (simp add: parse_example)
qed

text \<open>
  Claim C4, amended. Serialization visits the members of an object in the iteration order
  of the unordered map that holds them. In either layout the text of an object is, between
  the braces, the texts of its members in the order \<open>umap_iterate\<close> yields, joined by
  commas (pretty-printed: each on a line of its own, indented, with a blank behind the
  colon). For a container with one entry for each key whose iteration lists each stored
  key once, the keys come out in exactly that order, each member once and no other. The
  scenario document parses; its compact text has \<open>a\<close> before \<open>b\<close> when the container
  iterates \<open>a\<close> first, and \<open>b\<close> before \<open>a\<close> when it iterates \<open>b\<close> first.
\<close>

theorem object_members_in_iteration_order:
  "serialize_value ord fmt cfg (JsonObject obj) depth =
     ''{'' @ (if pretty_print cfg then [CHR 0x0A] else [])
     @ join_with ('','' @ (if pretty_print cfg then [CHR 0x0A] else []))
         (map (\<lambda>m. member_text cfg depth
                       (fst m, serialize_value ord fmt cfg (snd m) (depth + 1)))
              (umap_iterate ord obj))
     @ (if pretty_print cfg \<and> umap_iterate ord obj \<noteq> [] then [CHR 0x0A] @ add_indent cfg depth
        else [])
     @ ''}''
   \<and> (distinct (map fst obj) \<and> lists_each_once ord (map fst obj) \<longrightarrow>
        map fst (umap_iterate ord obj) = ord (map fst obj)
        \<and> distinct (map fst (umap_iterate ord obj))
        \<and> set (umap_iterate ord obj) = set obj)
   \<and> fst (parse default_ParserConfig elapsed st example_document) = Done example_value
   \<and> (ord [''a'', ''b''] = [''a'', ''b''] \<longrightarrow>
        serialize ord fmt default_SerializerConfig example_value = insertion_ordered_text)
   \<and> (ord [''a'', ''b''] = [''b'', ''a''] \<longrightarrow>
        serialize ord fmt default_SerializerConfig example_value = reversed_text)"
proof (intro conjI impI)
  show "serialize_value ord fmt cfg (JsonObject obj) depth =
     ''{'' @ (if pretty_print cfg then [CHR 0x0A] else [])
     @ join_with ('','' @ (if pretty_print cfg then [CHR 0x0A] else []))
         (map (\<lambda>m. member_text cfg depth
                       (fst m, serialize_value ord fmt cfg (snd m) (depth + 1)))
              (umap_iterate ord obj))
     @ (if pretty_print cfg \<and> umap_iterate ord obj \<noteq> [] then [CHR 0x0A] @ add_indent cfg depth
        else [])
     @ ''}''"
    by (simp add: serialize_object_def object_members_join comp_def)
next
  assume a: "distinct (map fst obj) \<and> lists_each_once ord (map fst obj)"
  then have sub: "set (ord (map fst obj)) \<subseteq> set (map fst obj)"
    by (simp add: lists_each_once_def)
  then show k: "map fst (umap_iterate ord obj) = ord (map fst obj)"
    by (rule umap_iterate_keys)
  show "distinct (map fst (umap_iterate ord obj))"
    using a by (simp add: k lists_each_once_def)
  show "set (umap_iterate ord obj) = set obj"
    using a by (simp add: umap_iterate_members)
next
  show "fst (parse default_ParserConfig elapsed st example_document) = Done example_value"
    by (simp add: parse_example)
next
  assume "ord [''a'', ''b''] = [''a'', ''b'']"
  then show "serialize ord fmt default_SerializerConfig example_value = insertion_ordered_text"
    by (rule serialize_example_forward)
next
  assume "ord [''a'', ''b''] = [''b'', ''a'']"
  then show "serialize ord fmt default_SerializerConfig example_value = reversed_text"
    by (rule serialize_example_backward)
qed

text \<open>
  The theorem at the scenario value, pretty-printed by a container that iterates in
  insertion order, and compact by one that iterates in the reverse order.
\<close>

theorem object_members_in_iteration_order_witness:
  "distinct (map fst [(''a'', JsonNumber 1), (''b'', JsonNull)])
   \<and> lists_each_once id (map fst [(''a'', JsonNumber 1), (''b'', JsonNull)])
   \<and> lists_each_once rev (map fst [(''a'', JsonNumber 1), (''b'', JsonNull)])
   \<and> id [''a'', ''b''] = [''a'', ''b'']
   \<and> rev [''a'', ''b''] = [''b'', ''a'']
   \<and> serialize_value id plain_fmt (default_SerializerConfig\<lparr>pretty_print := True\<rparr>)
        (JsonObject [(''a'', JsonNumber 1), (''b'', JsonNull)]) 0
        = ''{'' @ [CHR 0x0A] @ replicate 2 (CHR '' '') @ dq # ''a'' @ dq # '': 1,'' @ [CHR 0x0A]
          @ replicate 2 (CHR '' '') @ dq # ''b'' @ dq # '': null'' @ [CHR 0x0A] @ ''}''
   \<and> map fst (umap_iterate rev [(''a'', JsonNumber 1), (''b'', JsonNull)]) = [''b'', ''a'']
   \<and> set (umap_iterate rev [(''a'', JsonNumber 1), (''b'', JsonNull)])
        = {(''a'', JsonNumber 1), (''b'', JsonNull)}
   \<and> serialize id plain_fmt default_SerializerConfig example_value = insertion_ordered_text
   \<and> serialize rev plain_fmt default_SerializerConfig example_value = reversed_text"
  using object_members_in_iteration_order
    [of id plain_fmt "default_SerializerConfig\<lparr>pretty_print := True\<rparr>"
        "[(''a'', JsonNumber 1), (''b'', JsonNull)]" 0 0 initial_ParserStats]
    object_members_in_iteration_order
    [of rev plain_fmt default_SerializerConfig
        "[(''a'', JsonNumber 1), (''b'', JsonNull)]" 0 0 initial_ParserStats]
  by (simp add: default_SerializerConfig_def umap_iterate_def lists_each_once_def
      member_text_def add_indent_def serialize_number_def to_string_def to_string_nat.simps
      digit_char_def List.map_filter_simps
      serialize_string_def escape_string_def escape_char_def needs_escaping_def schar_def
      byte_def dq_def insert_commute)

section \<open>Theorems: request headers\<close>

lemma tolower_not_upper: "\<not> is_upper (tolower c)"
proof (cases "is_upper c")
  case True
  have "length ''abcdefghijklmnopqrstuvwxyz'' = 26"
    by simp
  with True have "byte c - 65 < length ''abcdefghijklmnopqrstuvwxyz''"
    unfolding is_upper_def by linarith
  then have "''abcdefghijklmnopqrstuvwxyz'' ! (byte c - 65) \<in> set ''abcdefghijklmnopqrstuvwxyz''"
    by (rule nth_mem)
  moreover have "\<forall>x \<in> set ''abcdefghijklmnopqrstuvwxyz''. \<not> is_upper x"
    by (simp add: is_upper_def byte_def)
  ultimately have n: "\<not> is_upper (''abcdefghijklmnopqrstuvwxyz'' ! (byte c - 65))"
    by blast
  have t: "tolower c = ''abcdefghijklmnopqrstuvwxyz'' ! (byte c - 65)"
    using True by (simp add: tolower_def is_upper_def)
  show ?thesis
    unfolding t by (rule n)
next
  case False
  then have "tolower c = c"
    unfolding tolower_def is_upper_def by (rule if_not_P)
  then show ?thesis using False by simp
qed

lemma parse_headers_append:
  "parse_headers (xs @ ys) h = parse_headers ys (parse_headers xs h)"
  by (induction xs arbitrary: h) auto

lemma headers_find_assign:
  "headers_find (umap_assign h k v) k' = (if k' = k then Some v else headers_find h k')"
  by (simp add: headers_find_def umap_assign_def update_conv')

lemma parse_headers_other:
  "\<forall>f \<in> set post. map tolower (fst f) \<noteq> key \<Longrightarrow>
   headers_find (parse_headers post h) key = headers_find h key"
  by (induction post arbitrary: h) (auto simp: headers_find_assign)

lemma parse_headers_keys:
  "headers_find (parse_headers req h) key = Some v \<Longrightarrow>
   headers_find h key \<noteq> None \<or> (\<exists>f \<in> set req. key = map tolower (fst f))"
proof (induction req arbitrary: h)
  case Nil
  then show ?case by simp
next
  case (Cons f req)
  obtain n w where f: "f = (n, w)" by (cases f)
  from Cons.IH [of "umap_assign h (map tolower n) w"] Cons.prems
  show ?case
    by (auto simp: f headers_find_assign split: if_splits)
qed

text \<open>
  Claim C9, amended. The headers mapping is keyed by the lower-cased name and compared
  exactly. For the last field of the request carrying a name (up to ASCII case), a lookup
  under the lower-cased form of any casing of that name returns its value. A lookup key
  that contains an upper-case letter finds nothing, whatever the request was.
\<close>

theorem header_lookup_exact_on_lowercase:
  "(req = pre @ (name, val) # post \<and> (\<forall>f \<in> set post. \<not> iequals (fst f) name) \<longrightarrow>
      headers_find (parse_headers req []) (map tolower name) = Some val
      \<and> (\<forall>name'. iequals name' name \<longrightarrow>
            headers_find (parse_headers req []) (map tolower name') = Some val))
   \<and> ((\<exists>c \<in> set key. is_upper c) \<longrightarrow> headers_find (parse_headers req []) key = None)"
proof (intro conjI impI)
  assume a: "req = pre @ (name, val) # post \<and> (\<forall>f \<in> set post. \<not> iequals (fst f) name)"
  then have post: "\<forall>f \<in> set post. map tolower (fst f) \<noteq> map tolower name"
    by (simp add: iequals_def)
  have "headers_find (parse_headers req []) (map tolower name)
      = headers_find (umap_assign (parse_headers pre []) (map tolower name) val) (map tolower name)"
    using a parse_headers_other [OF post] by (simp add: parse_headers_append)
  then show l: "headers_find (parse_headers req []) (map tolower name) = Some val"
    by (simp add: headers_find_assign)
  show "\<forall>name'. iequals name' name \<longrightarrow>
            headers_find (parse_headers req []) (map tolower name') = Some val"
    using l by (simp add: iequals_def)
next
  assume "\<exists>c \<in> set key. is_upper c"
  then obtain c where c: "c \<in> set key" "is_upper c" by blast
  show "headers_find (parse_headers req []) key = None"
  proof (rule ccontr)
    assume "headers_find (parse_headers req []) key \<noteq> None"
    then obtain v where "headers_find (parse_headers req []) key = Some v" by auto
    from parse_headers_keys [OF this]
    obtain f where "key = map tolower (fst f)"
      by (auto simp: headers_find_def)
    with c show False using tolower_not_upper by auto
  qed
qed

text \<open>
  Claim C9 states that a lookup under any ASCII casing of a stored header name returns the
  stored value. For the request field \<open>Content-Type: text/plain\<close> the mapping holds the
  key \<open>content-type\<close>; looking up \<open>Content-Type\<close>, the casing the client sent, finds
  nothing.
\<close>

theorem header_lookup_mixed_case_misses:
  "headers_find (parse_headers [(''Content-Type'', ''text/plain'')] []) ''Content-Type'' = None
   \<and> headers_find (parse_headers [(''Content-Type'', ''text/plain'')] []) ''content-type''
       = Some ''text/plain''"
  by (simp add: headers_find_def umap_assign_def tolower_def byte_def)

theorem header_lookup_exact_on_lowercase_witness:
  "[(''Host'', ''a''), (''Accept'', ''x''), (''host'', ''b'')] = [(''Host'', ''a''), (''Accept'', ''x'')] @ (''host'', ''b'') # []
   \<and> iequals ''HOST'' ''host''
   \<and> (\<exists>c \<in> set ''Host''. is_upper c)
   \<and> headers_find (parse_headers [(''Host'', ''a''), (''Accept'', ''x''), (''host'', ''b'')] []) ''host'' = Some ''b''
   \<and> headers_find (parse_headers [(''Host'', ''a''), (''Accept'', ''x''), (''host'', ''b'')] []) (map tolower ''HOST'') = Some ''b''
   \<and> headers_find (parse_headers [(''Host'', ''a''), (''Accept'', ''x''), (''host'', ''b'')] []) ''Host'' = None"
  using header_lookup_exact_on_lowercase
    [of "[(''Host'', ''a''), (''Accept'', ''x''), (''host'', ''b'')]" "[(''Host'', ''a''), (''Accept'', ''x'')]"
        "''host''" "''b''" "[]" "''Host''"]
  by (simp add: iequals_def is_upper_def tolower_def byte_def headers_find_def umap_assign_def)

section \<open>Theorems: response builder\<close>

lemma fields_named_set_same:
  "iequals n name \<Longrightarrow> fields_named n (fields_set name v fs) = [(name, v)]"
proof -
  assume a: "iequals n name"
  have "filter (\<lambda>f. iequals (fst f) n) (filter (\<lambda>f. \<not> iequals (fst f) name) fs) = []"
    using a by (auto simp: filter_empty_conv iequals_def)
  then show ?thesis using a by (simp add: fields_named_def fields_set_def iequals_def)
qed

lemma fields_named_set_other:
  "\<not> iequals n name \<Longrightarrow> fields_named n (fields_set name v fs) = fields_named n fs"
proof -
  assume a: "\<not> iequals n name"
  have "filter (\<lambda>f. iequals (fst f) n) (filter (\<lambda>f. \<not> iequals (fst f) name) fs)
      = filter (\<lambda>f. iequals (fst f) n) fs"
    using a by (auto simp: iequals_def intro!: filter_cong)
  then show ?thesis using a by (auto simp: fields_named_def fields_set_def iequals_def)
qed

lemma set_cookies_last:
  "cs \<noteq> [] \<Longrightarrow>
   fields_named ''Set-Cookie'' (set_cookies cs fs)
     = [(''Set-Cookie'', fst (last cs) @ ''='' @ snd (last cs) @ ''; Path=/'')]"
proof (induction cs arbitrary: fs)
  case Nil
  then show ?case by simp
next
  case (Cons c cs)
  obtain n v where c: "c = (n, v)" by (cases c)
  show ?case
  proof (cases "cs = []")
    case True
    then show ?thesis
      by (simp add: c fields_named_set_same iequals_def)
  next
    case False
    then show ?thesis using Cons.IH [of "fields_set ''Set-Cookie'' (n @ ''='' @ v @ ''; Path=/'') fs"]
      by (simp add: c)
  qed
qed

lemma not_set_cookie: "\<not> iequals ''Set-Cookie'' ''Content-Length''"
  by (simp add: iequals_def tolower_def byte_def)

text \<open>
  Claim C6 states that \<open>build_response\<close> emits one Set-Cookie header per cookie, in
  insertion order. The loop over the cookies calls \<open>response.set\<close>, which replaces the
  field of that name: whenever the response data holds at least one cookie and the
  message is built, the message carries exactly one Set-Cookie field, the one of the last
  cookie. (Its value repeats the cookie name, since \<open>add_cookie\<close> has already stored
  \<open>name=value\<close> as the value.)
\<close>

theorem build_response_one_set_cookie:
  "cookies rd \<noteq> [] \<and> build_response ord rd = Inr r \<longrightarrow>
   fields_named ''Set-Cookie'' (header_fields r)
     = [(''Set-Cookie'', fst (last (cookies rd)) @ ''='' @ snd (last (cookies rd)) @ ''; Path=/'')]"
proof
  assume a: "cookies rd \<noteq> [] \<and> build_response ord rd = Inr r"
  then show "fields_named ''Set-Cookie'' (header_fields r)
     = [(''Set-Cookie'', fst (last (cookies rd)) @ ''='' @ snd (last (cookies rd)) @ ''; Path=/'')]"
    by (auto simp: build_response_def prepare_payload_def Let_def set_cookies_last
        fields_named_set_other not_set_cookie split: if_splits)
qed

theorem build_response_one_set_cookie_witness:
  "cookies two_cookies = [(''sid'', ''sid=1; Path=/; HttpOnly''), (''lang'', ''lang=en; Path=/; HttpOnly'')]
   \<and> build_response id two_cookies
       = Inr \<lparr>result_code = 200, version = 11,
              header_fields = [(''Server'', ''PySpeed/1.0''),
                               (''Set-Cookie'', ''lang=lang=en; Path=/; HttpOnly; Path=/''),
                               (''Content-Length'', ''0'')],
              payload = []\<rparr>
   \<and> fields_named ''Set-Cookie''
        [(''Server'', ''PySpeed/1.0''),
         (''Set-Cookie'', ''lang=lang=en; Path=/; HttpOnly; Path=/''),
         (''Content-Length'', ''0'')]
       = [(''Set-Cookie'', ''lang=lang=en; Path=/; HttpOnly; Path=/'')]"
proof -
  have c: "cookies two_cookies = [(''sid'', ''sid=1; Path=/; HttpOnly''), (''lang'', ''lang=en; Path=/; HttpOnly'')]"
    by (simp add: two_cookies_def add_cookie_def default_ResponseData_def)
  have o: "headers two_cookies = []" "body two_cookies = []" "status_code two_cookies = 200"
    by (simp_all add: two_cookies_def add_cookie_def default_ResponseData_def)
  have b: "build_response id two_cookies
       = Inr \<lparr>result_code = 200, version = 11,
              header_fields = [(''Server'', ''PySpeed/1.0''),
                               (''Set-Cookie'', ''lang=lang=en; Path=/; HttpOnly; Path=/''),
                               (''Content-Length'', ''0'')],
              payload = []\<rparr>"
    by (simp add: build_response_def c o Let_def umap_iterate_def prepare_payload_def fields_set_def
        iequals_def tolower_def byte_def to_string_nat.simps digit_char_def)
  show ?thesis
    using build_response_one_set_cookie [of two_cookies id] b c
    by (simp add: fields_named_def iequals_def tolower_def byte_def)
qed


section \<open>Theorems: static file handler\<close>

subsection \<open>Rejected paths\<close>

lemmas scenario_defs = scenario_handler_def add_route_def new_StaticFileHandler_def
  default_Config_def umap_assign_def

lemmas path_defs = joined_path_def resolve_file_path_def normalize_path_def lexically_normal_def
  is_safe_path_def

lemma serve_file_lookup:
  assumes "passes_checks pf fs hdrs h request_path path f"
  shows "serve_file pf fs now elapsed request_path hdrs h
       = serve_lookup pf fs now elapsed hdrs path f (generate_etag pf path (mtime f)) h"
  using assms
  by (auto simp: passes_checks_def serve_file_def Let_def split: option.splits)

lemma joined_traversal:
  "joined_path scenario_handler ''/static/../../etc/passwd'' = Inr ''../etc/passwd''"
  by (simp add: path_defs scenario_defs)

text \<open>
  Claim C1, amended. For every request path whose form after joining with the local root
  of its route and normalizing contains \<open>..\<close> or \<open>//\<close>, \<open>serve_file\<close> returns \<open>NOT_FOUND\<close>
  (\<open>resolve_file_path\<close> returns the empty path, which \<open>serve_file\<close> answers as a missing
  file) and leaves the handler and its statistics as they were.
\<close>

theorem unsafe_path_is_not_found:
  "joined_path h request_path = Inr path \<and> (contains path ''..'' \<or> contains path ''//'') \<longrightarrow>
   serve_file pf fs now elapsed request_path hdrs h = (new_ServeResult\<lparr>status := NOT_FOUND\<rparr>, h)"
  by (auto simp: serve_file_def resolve_file_path_def is_safe_path_def)

text \<open>The theorem at the request \<open>/static/../../etc/passwd\<close>.\<close>

theorem unsafe_path_is_not_found_witness:
  "joined_path scenario_handler ''/static/../../etc/passwd'' = Inr ''../etc/passwd''
   \<and> contains ''../etc/passwd'' ''..''
   \<and> serve_file sample_platform no_files 0 0 ''/static/../../etc/passwd'' no_headers scenario_handler
       = (new_ServeResult\<lparr>status := NOT_FOUND\<rparr>, scenario_handler)"
  using unsafe_path_is_not_found
    [of scenario_handler "''/static/../../etc/passwd''" "''../etc/passwd''"
        sample_platform no_files 0 0 no_headers]
  by (simp add: joined_traversal)

text \<open>
  Claim C1 as stated fails: \<open>/static/../../etc/passwd\<close> normalizes to \<open>../etc/passwd\<close>,
  which contains \<open>..\<close>, and the answer is \<open>NOT_FOUND\<close>, not \<open>FORBIDDEN\<close>.
\<close>

theorem traversal_answered_not_found:
  "normalize_path (''./static'' @ ''/../../etc/passwd'') = ''../etc/passwd''
   \<and> contains ''../etc/passwd'' ''..''
   \<and> status (fst (serve_file sample_platform no_files 0 0 ''/static/../../etc/passwd'' no_headers
                     scenario_handler)) = NOT_FOUND
   \<and> status (fst (serve_file sample_platform no_files 0 0 ''/static/../../etc/passwd'' no_headers
                     scenario_handler)) \<noteq> FORBIDDEN"
  by (simp add: serve_file_def resolve_file_path_def joined_traversal is_safe_path_def
      normalize_path_def lexically_normal_def new_ServeResult_def)

subsection \<open>Files above the file size limit\<close>

lemma get_cached_file_absent:
  "map_of (cache h) path = None \<Longrightarrow> get_cached_file fs h path = (None, h)"
  by (simp add: get_cached_file_def)

lemma compress_null: "n mod 2 ^ 32 \<noteq> 0 \<Longrightarrow> compress_content pf Null_ptr n = []"
  by (simp add: compress_content_def compress_gzip_def deflate_input_def)

text \<open>
  Claim C3, as the code behaves. For an existing file that is not forbidden, not in the
  cache and larger than \<open>max_file_size\<close>, requested without a range, \<open>serve_file\<close> leaves
  the cache index and \<open>current_cache_size\<close> as they were, increments \<open>cache_misses\<close> and
  returns \<open>SUCCESS\<close>; but the branch for a file too large to cache never maps the file, so
  the response is made from the null pointer. Unless the size is a multiple of \<open>2^32\<close>,
  \<open>content_length\<close> is the size of the file and \<open>data\<close> is the null pointer. For a
  multiple of \<open>2^32\<close> the same holds when the content is not to be compressed; when it
  is, \<open>deflate\<close> is given the null pointer with the count zero, and what it returns for no
  input, if it is not empty, takes the place of the body.
\<close>

theorem oversized_file_served_without_mapping:
  assumes "passes_checks pf fs hdrs h request_path path f"
    and "hdrs ''range'' = None"
    and "map_of (cache h) path = None"
    and "length (content f) > max_file_bytes (config h)"
  shows "status (fst (serve_file pf fs now elapsed request_path hdrs h)) = SUCCESS
    \<and> (length (content f) mod 2 ^ 32 \<noteq> 0 \<longrightarrow>
         content_length (fst (serve_file pf fs now elapsed request_path hdrs h)) = length (content f)
         \<and> data (fst (serve_file pf fs now elapsed request_path hdrs h)) = Null_ptr)
    \<and> (let gz = (if should_compress (config h) (get_mime_type path) (length (content f))
                     \<and> accepts_gzip hdrs
                  then compress_content pf Null_ptr (length (content f)) else [])
        in if gz = []
           then content_length (fst (serve_file pf fs now elapsed request_path hdrs h))
                  = length (content f)
              \<and> data (fst (serve_file pf fs now elapsed request_path hdrs h)) = Null_ptr
           else content_length (fst (serve_file pf fs now elapsed request_path hdrs h)) = length gz
              \<and> data (fst (serve_file pf fs now elapsed request_path hdrs h)) = View gz)
    \<and> cache (snd (serve_file pf fs now elapsed request_path hdrs h)) = cache h
    \<and> current_cache_size (snd (serve_file pf fs now elapsed request_path hdrs h)) = current_cache_size h
    \<and> cache_misses (stats (snd (serve_file pf fs now elapsed request_path hdrs h)))
        = cache_misses (stats h) + 1"
  unfolding serve_file_lookup [OF assms(1)]
  using assms(2-4)
  by (simp add: serve_lookup_def get_cached_file_absent Let_def serve_range_def serve_body_def
      finish_def ptr_of_def new_ServeResult_def compress_null)

lemma no_cache_handler_fields:
  "config no_cache_handler = default_Config\<lparr>max_file_size_mb := 0\<rparr>"
  "routes no_cache_handler = [(''/static'', ''./static'')]"
  "cache no_cache_handler = []"
  "current_cache_size no_cache_handler = 0"
  "stats no_cache_handler = new_Stats"
  by (simp_all add: no_cache_handler_def add_route_def new_StaticFileHandler_def umap_assign_def)

lemma resolve_static_a:
  "routes h = [(''/static'', ''./static'')] \<Longrightarrow>
   resolve_file_path h ''/static/a.txt'' = Inr ''static/a.txt''"
  by (simp add: path_defs)

lemma not_forbidden_a:
  "forbidden_extensions cfg = [''.tmp'', ''.bak'', ''.log''] \<Longrightarrow> hidden_prefixes cfg = [''.'', ''_''] \<Longrightarrow>
   \<not> is_file_forbidden cfg ''static/a.txt''"
  by (simp add: is_file_forbidden_def ends_with_def starts_with_def get_filename_def)

lemma checks_a_no_cache:
  "passes_checks sample_platform (one_file ''static/a.txt'' ten_bytes) no_headers no_cache_handler
     ''/static/a.txt'' ''static/a.txt'' ten_bytes"
  by (simp add: passes_checks_def resolve_static_a not_forbidden_a no_cache_handler_fields
      default_Config_def one_file_def no_headers_def)

text \<open>The theorem at a file of ten bytes and a handler with \<open>max_file_size_mb = 0\<close>.\<close>

theorem oversized_file_served_without_mapping_witness:
  "passes_checks sample_platform (one_file ''static/a.txt'' ten_bytes) no_headers no_cache_handler
     ''/static/a.txt'' ''static/a.txt'' ten_bytes
   \<and> no_headers ''range'' = None
   \<and> map_of (cache no_cache_handler) ''static/a.txt'' = None
   \<and> length (content ten_bytes) > max_file_bytes (config no_cache_handler)
   \<and> length (content ten_bytes) mod 2 ^ 32 \<noteq> 0
   \<and> status (fst (serve_file sample_platform (one_file ''static/a.txt'' ten_bytes) 5 7
                     ''/static/a.txt'' no_headers no_cache_handler)) = SUCCESS
   \<and> content_length (fst (serve_file sample_platform (one_file ''static/a.txt'' ten_bytes) 5 7
                     ''/static/a.txt'' no_headers no_cache_handler)) = 10
   \<and> data (fst (serve_file sample_platform (one_file ''static/a.txt'' ten_bytes) 5 7
                     ''/static/a.txt'' no_headers no_cache_handler)) = Null_ptr
   \<and> cache (snd (serve_file sample_platform (one_file ''static/a.txt'' ten_bytes) 5 7
                     ''/static/a.txt'' no_headers no_cache_handler)) = []"
proof -
  have a: "no_headers ''range'' = None"
    by (simp add: no_headers_def)
  have b: "map_of (cache no_cache_handler) ''static/a.txt'' = None"
    by (simp add: no_cache_handler_fields)
  have c: "length (content ten_bytes) > max_file_bytes (config no_cache_handler)"
    by (simp add: ten_bytes_def max_file_bytes_def no_cache_handler_fields default_Config_def)
  have d: "cache no_cache_handler = []" "length (content ten_bytes) = 10"
    by (simp_all add: no_cache_handler_fields ten_bytes_def)
  show ?thesis
    using oversized_file_served_without_mapping [OF checks_a_no_cache a b c, of 5 7]
      checks_a_no_cache a b c
    by (simp add: d)
qed


subsection \<open>The stages of \<open>serve_file\<close>\<close>

lemma scenario_handler_fields:
  "config scenario_handler = default_Config"
  "routes scenario_handler = [(''/static'', ''./static'')]"
  "cache scenario_handler = []"
  "current_cache_size scenario_handler = 0"
  "stats scenario_handler = new_Stats"
  by (simp_all add: scenario_handler_def add_route_def new_StaticFileHandler_def umap_assign_def)

lemma config_evict_loop [simp]: "config (evict_loop es freed needed h) = config h"
  by (induction es freed needed h rule: evict_loop.induct) (auto simp: Let_def split: option.splits)

lemma config_cache_file [simp]: "config (cache_file h path entry) = config h"
  by (simp add: cache_file_def evict_lru_entries_def Let_def)

lemma get_cached_file_hit:
  assumes "map_of (cache h) path = Some entry" "file_path entry = path"
    "mapped_data entry = Some bytes" "fs path = Some f"
  shows "get_cached_file fs h path = (Some entry, h)"
  using assms by (simp add: get_cached_file_def is_valid_def)

lemma serve_lookup_hit:
  assumes "map_of (cache h) path = Some entry" "file_path entry = path"
    "mapped_data entry = Some bytes" "fs path = Some f"
  shows "serve_lookup pf fs now elapsed hdrs path f tag h
       = serve_range pf now elapsed hdrs path (length (content f)) (mtime f) tag entry True
           (h\<lparr>stats := (stats h)\<lparr>cache_hits := cache_hits (stats h) + 1\<rparr>\<rparr>)"
proof -
  have "get_cached_file fs h path = (Some entry, h)"
    using assms by (rule get_cached_file_hit)
  then show ?thesis
    by (simp add: serve_lookup_def Let_def)
qed

lemma serve_range_with_header:
  assumes "enable_range_requests (config h)" "hdrs ''range'' = Some rh"
    "mapped_data entry = Some bytes"
  shows "fst (serve_range pf now elapsed hdrs path fsize modified tag entry cached h)
       = (case parse_range_header rh fsize of
            Some (s, e) \<Rightarrow>
              new_ServeResult\<lparr>status := SUCCESS, res_content_type := content_type entry,
                res_etag := tag, res_last_modified := modified, content_length := e - s + 1,
                data := View (drop s bytes), is_partial_content := True, range_start := s,
                range_end := e, total_size := fsize\<rparr>
          | None \<Rightarrow> new_ServeResult\<lparr>status := RANGE_NOT_SATISFIABLE\<rparr>)"
  using assms
  by (simp add: serve_range_def serve_body_def finish_def Let_def ptr_add_def new_ServeResult_def
      split: option.splits)

lemma serve_lookup_miss:
  assumes "map_of (cache h) path = None" "length (content f) \<le> max_file_bytes (config h)"
    "map_file f = Some bytes"
  shows "\<exists>entry h'. mapped_data entry = Some bytes \<and> config h' = config h
       \<and> serve_lookup pf fs now elapsed hdrs path f tag h
           = serve_range pf now elapsed hdrs path (length (content f)) (mtime f) tag entry True h'"
proof -
  let ?e = "\<lparr>file_path = path, content_type = get_mime_type path, etag = tag,
             last_modified = mtime f, file_size = length (content f),
             mapped_data = Some bytes, mapped_size = length bytes, last_accessed = 0,
             access_count = 0, is_compressed = False, compressed_data = []\<rparr>"
  let ?h = "(cache_file h path ?e)\<lparr>stats := (stats (cache_file h path ?e))
               \<lparr>cache_misses := cache_misses (stats (cache_file h path ?e)) + 1\<rparr>\<rparr>"
  have "serve_lookup pf fs now elapsed hdrs path f tag h
      = serve_range pf now elapsed hdrs path (length (content f)) (mtime f) tag ?e True ?h"
    using assms by (simp add: serve_lookup_def get_cached_file_absent Let_def)
  moreover have "mapped_data ?e = Some bytes"
    by simp
  moreover have "config ?h = config h"
    by simp
  ultimately show ?thesis
    by blast
qed

lemma serve_lookup_mapped:
  assumes "mapping_available h path f bytes" "fs path = Some f"
  shows "\<exists>entry h'. mapped_data entry = Some bytes \<and> config h' = config h
       \<and> serve_lookup pf fs now elapsed hdrs path f tag h
           = serve_range pf now elapsed hdrs path (length (content f)) (mtime f) tag entry True h'"
proof (cases "map_of (cache h) path")
  case None
  with assms(1) have "length (content f) \<le> max_file_bytes (config h)" "map_file f = Some bytes"
    by (simp_all add: mapping_available_def)
  with None show ?thesis
    by (rule serve_lookup_miss)
next
  case (Some entry)
  with assms(1) have e: "file_path entry = path" "mapped_data entry = Some bytes"
    by (simp_all add: mapping_available_def)
  let ?h = "h\<lparr>stats := (stats h)\<lparr>cache_hits := cache_hits (stats h) + 1\<rparr>\<rparr>"
  have "serve_lookup pf fs now elapsed hdrs path f tag h
       = serve_range pf now elapsed hdrs path (length (content f)) (mtime f) tag entry True ?h"
    using Some e assms(2) by (rule serve_lookup_hit)
  moreover have "config ?h = config h"
    by simp
  ultimately show ?thesis
    using e(2) by blast
qed

lemma serve_file_range_result:
  assumes "passes_checks pf fs hdrs h request_path path f"
    and "enable_range_requests (config h)"
    and "hdrs ''range'' = Some rh"
    and "mapping_available h path f bytes"
  shows "\<exists>ctype. fst (serve_file pf fs now elapsed request_path hdrs h)
       = (case parse_range_header rh (length (content f)) of
            Some (s, e) \<Rightarrow>
              new_ServeResult\<lparr>status := SUCCESS, res_content_type := ctype,
                res_etag := generate_etag pf path (mtime f), res_last_modified := mtime f,
                content_length := e - s + 1,
                data := View (drop s bytes), is_partial_content := True, range_start := s,
                range_end := e, total_size := length (content f)\<rparr>
          | None \<Rightarrow> new_ServeResult\<lparr>status := RANGE_NOT_SATISFIABLE\<rparr>)"
proof -
  have fs: "fs path = Some f"
    using assms(1) by (simp add: passes_checks_def)
  obtain entry h' where m: "mapped_data entry = Some bytes" "config h' = config h"
    "serve_lookup pf fs now elapsed hdrs path f (generate_etag pf path (mtime f)) h
       = serve_range pf now elapsed hdrs path (length (content f)) (mtime f)
           (generate_etag pf path (mtime f)) entry True h'"
    using serve_lookup_mapped [of h path f bytes fs pf now elapsed hdrs "generate_etag pf path (mtime f)"]
      assms(4) fs by blast
  have en: "enable_range_requests (config h')"
    using assms(2) m(2) by simp
  have "fst (serve_range pf now elapsed hdrs path (length (content f)) (mtime f)
              (generate_etag pf path (mtime f)) entry True h')
       = (case parse_range_header rh (length (content f)) of
            Some (s, e) \<Rightarrow>
              new_ServeResult\<lparr>status := SUCCESS, res_content_type := content_type entry,
                res_etag := generate_etag pf path (mtime f), res_last_modified := mtime f,
                content_length := e - s + 1,
                data := View (drop s bytes), is_partial_content := True, range_start := s,
                range_end := e, total_size := length (content f)\<rparr>
          | None \<Rightarrow> new_ServeResult\<lparr>status := RANGE_NOT_SATISFIABLE\<rparr>)"
    using en assms(3) m(1) by (rule serve_range_with_header)
  then show ?thesis
    unfolding serve_file_lookup [OF assms(1)] m(3)
    by (intro exI [of _ "content_type entry"]) simp
qed

subsection \<open>The forms of the range header\<close>

lemma digit_plain: "is_digit c \<Longrightarrow> \<not> is_space c \<and> c \<noteq> CHR ''-'' \<and> c \<noteq> CHR ''+''"
  by (auto simp: is_digit_def is_space_def byte_def)

lemma stoull_number:
  assumes "is_number ds"
  shows "stoull ds = (if digits_value ds \<ge> 2 ^ 64 then Inl (Out_of_range ''stoull'')
                     else Inr (digits_value ds))"
proof -
  obtain c r where ds: "ds = c # r" and c: "is_digit c" and r: "list_all is_digit r"
    using assms by (cases ds) (auto simp: is_number_def)
  have tw: "takeWhile is_digit (c # r) = c # r"
    using c r by (simp add: list_all_iff)
  show ?thesis
    using digit_plain [OF c] c
    by (simp add: stoull_def ds Let_def tw del: takeWhile.simps)
qed

lemma takeWhile_number:
  "list_all is_digit ds \<Longrightarrow> takeWhile (\<lambda>c. c \<noteq> CHR ''-'') (ds @ CHR ''-'' # rest) = ds"
proof -
  assume "list_all is_digit ds"
  then have "\<forall>c \<in> set ds. c \<noteq> CHR ''-''"
    using digit_plain by (auto simp: list_all_iff)
  then show ?thesis
    by (simp add: takeWhile_append2)
qed

lemma size_sub_one:
  assumes "0 < n" "n < 2 ^ 64"
  shows "size_sub n 1 = n - 1"
proof -
  obtain m where m: "n = Suc m"
    using assms(1) by (cases n) auto
  have "(Suc m + 2 ^ 64 - 1) mod 2 ^ 64 = (m + 2 ^ 64) mod (2 ^ 64 :: nat)"
    by simp
  also have "\<dots> = m mod 2 ^ 64"
    by (rule mod_add_self2)
  also have "\<dots> = m"
    using assms(2) m by simp
  finally show ?thesis
    by (simp add: size_sub_def m)
qed

lemma size_sub_zero: "size_sub 0 1 = 2 ^ 64 - 1"
  by (simp add: size_sub_def)

lemma parse_range_spec:
  "parse_range_header (''bytes='' @ spec) n =
     (if CHR ''-'' \<notin> set spec then None
      else let start_str = takeWhile (\<lambda>c. c \<noteq> CHR ''-'') spec;
               end_str = drop (length start_str + 1) spec
           in if start_str = [] \<and> end_str = [] then None
              else case range_bounds start_str end_str n of
                     Inl e \<Rightarrow> None
                   | Inr (s, e) \<Rightarrow> if s < n \<and> e < n \<and> s \<le> e then Some (s, e) else None)"
  by (simp add: parse_range_header_def starts_with_def Let_def)

lemma range_full_form:
  assumes "is_number ds" "is_number de"
  shows "parse_range_header (''bytes='' @ ds @ ''-'' @ de) n
       = (if digits_value ds \<le> digits_value de \<and> digits_value de < n \<and> digits_value de < 2 ^ 64
          then Some (digits_value ds, digits_value de) else None)"
proof -
  have d: "list_all is_digit ds" "ds \<noteq> []" "de \<noteq> []"
    using assms by (simp_all add: is_number_def)
  show ?thesis
    unfolding parse_range_spec
    using d
    by (auto simp: takeWhile_number Let_def range_bounds_def stoull_number [OF assms(1)]
        stoull_number [OF assms(2)])
qed

lemma range_prefix_form:
  assumes "is_number ds" "n < 2 ^ 64"
  shows "parse_range_header (''bytes='' @ ds @ ''-'') n
       = (if digits_value ds < n then Some (digits_value ds, n - 1) else None)"
proof -
  have d: "list_all is_digit ds" "ds \<noteq> []"
    using assms by (simp_all add: is_number_def)
  show ?thesis
  proof (cases "n = 0")
    case True
    then show ?thesis
      unfolding parse_range_spec using d
      by (auto simp: takeWhile_number Let_def range_bounds_def stoull_number [OF assms(1)])
  next
    case False
    then have "size_sub n (Suc 0) = n - Suc 0"
      using assms(2) size_sub_one [of n] by simp
    then show ?thesis
      unfolding parse_range_spec using d False assms(2)
      by (auto simp: takeWhile_number Let_def range_bounds_def stoull_number [OF assms(1)])
  qed
qed

lemma range_suffix_form:
  assumes "is_number de" "n < 2 ^ 64"
  shows "parse_range_header (''bytes=-'' @ de) n
       = (if 0 < digits_value de \<and> digits_value de < 2 ^ 64 \<and> 0 < n
          then Some (n - min (digits_value de) n, n - 1) else None)"
proof -
  have d: "de \<noteq> []"
    using assms by (simp_all add: is_number_def)
  have p: "parse_range_header (''bytes='' @ (CHR ''-'' # de)) n
       = (if 0 < digits_value de \<and> digits_value de < 2 ^ 64 \<and> 0 < n
          then Some (n - min (digits_value de) n, n - 1) else None)"
  proof (cases "n = 0")
    case True
    then show ?thesis
      unfolding parse_range_spec using d
      by (auto simp: Let_def range_bounds_def stoull_number [OF assms(1)] size_sub_zero)
  next
    case False
    then have "size_sub n (Suc 0) = n - Suc 0"
      using assms(2) size_sub_one [of n] by simp
    then show ?thesis
      unfolding parse_range_spec using d False assms(2)
      by (auto simp: Let_def range_bounds_def stoull_number [OF assms(1)] min_def)
  qed
  then show ?thesis by simp
qed


subsection \<open>Range requests\<close>

lemma resolve_static_a_scn: "resolve_file_path scenario_handler ''/static/a.txt'' = Inr ''static/a.txt''"
  by (simp add: resolve_static_a scenario_handler_fields)

lemma checks_a_range:
  "passes_checks sample_platform (one_file ''static/a.txt'' ten_bytes) (one_header ''range'' v)
     scenario_handler ''/static/a.txt'' ''static/a.txt'' ten_bytes"
  by (simp add: passes_checks_def resolve_static_a_scn not_forbidden_a scenario_handler_fields
      default_Config_def one_file_def one_header_def)

lemma mapping_a:
  "mapping_available scenario_handler ''static/a.txt'' ten_bytes ''0123456789''"
  by (simp add: mapping_available_def scenario_handler_fields max_file_bytes_def default_Config_def
      map_file_def ten_bytes_def)

lemma range_garbage: "parse_range_header ''bytes=2-5xyz'' 10 = Some (2, 5)"
  by (simp add: parse_range_header_def starts_with_def Let_def range_bounds_def stoull_def
      is_space_def is_digit_def byte_def digits_value_def digit_value_def)

lemma stoull_trailing:
  assumes "is_number ds" "\<not> is_digit c"
  shows "stoull (ds @ c # rest) = stoull ds"
proof -
  obtain d r where ds: "ds = d # r" and d: "is_digit d" and r: "list_all is_digit r"
    using assms(1) by (cases ds) (auto simp: is_number_def)
  have tw: "takeWhile is_digit (d # r @ c # rest) = d # r" "takeWhile is_digit (d # r) = d # r"
    using d r assms(2) by (simp_all add: list_all_iff takeWhile_append2)
  show ?thesis
    using digit_plain [OF d] d
    by (simp add: stoull_def ds Let_def tw del: takeWhile.simps)
qed

lemma range_trailing:
  assumes "is_number ds" "is_number de" "\<not> is_digit c"
  shows "parse_range_header (''bytes='' @ ds @ ''-'' @ de @ c # rest) n
       = parse_range_header (''bytes='' @ ds @ ''-'' @ de) n"
proof -
  have d: "list_all is_digit ds" "ds \<noteq> []" "de \<noteq> []"
    using assms by (simp_all add: is_number_def)
  have t: "takeWhile (\<lambda>c. c \<noteq> CHR ''-'') (ds @ CHR ''-'' # de @ c # rest) = ds"
    "takeWhile (\<lambda>c. c \<noteq> CHR ''-'') (ds @ CHR ''-'' # de) = ds"
    using d(1) by (simp_all add: takeWhile_number)
  show ?thesis
    unfolding parse_range_spec
    using d t
    by (simp add: Let_def range_bounds_def stoull_trailing [OF assms(2) assms(3)]
        cong: sum.case_cong)
qed

text \<open>
  Claim C7, as the code behaves. For a request that passes the checks before the cache,
  with range requests enabled, a \<open>range\<close> header and a mapping of the file at hand:
  \<open>serve_file\<close> returns a partial-content \<open>SUCCESS\<close> with \<open>range_start\<close>, \<open>range_end\<close>,
  \<open>total_size = file_size\<close>, \<open>content_length = end - start + 1\<close> and \<open>data\<close> at offset
  \<open>start\<close> of the mapping exactly when \<open>parse_range_header\<close> accepts the header with the range
  \<open>(start, end)\<close>, and \<open>RANGE_NOT_SATISFIABLE\<close> exactly when \<open>parse_range_header\<close> rejects it.
  For the three forms with \<open>start\<close>, \<open>end\<close> and \<open>suffix\<close> plain decimal numbers,
  \<open>parse_range_header\<close> accepts exactly when the resolved range satisfies
  \<open>start \<le> end < file_size\<close>: \<open>bytes=start-end\<close> resolves to \<open>(start, end)\<close>,
  \<open>bytes=start-\<close> to \<open>(start, file_size - 1)\<close> and \<open>bytes=-suffix\<close>, for a suffix between 1
  and \<open>2^64 - 1\<close> and a file that is not empty, to the last \<open>min suffix file_size\<close> bytes.
  But a malformed header is not always rejected: \<open>std::stoull\<close> stops at the first
  character that is not a digit, so whatever follows the end number, from a character
  that is not a digit on, is ignored, and the header is served as if it ended there.
\<close>

theorem range_request_served:
  assumes "passes_checks pf fs hdrs h request_path path f"
    and "enable_range_requests (config h)"
    and "hdrs ''range'' = Some rh"
    and "mapping_available h path f bytes"
  shows "(\<exists>ctype. fst (serve_file pf fs now elapsed request_path hdrs h)
       = (case parse_range_header rh (length (content f)) of
            Some (s, e) \<Rightarrow>
              new_ServeResult\<lparr>status := SUCCESS, res_content_type := ctype,
                res_etag := generate_etag pf path (mtime f), res_last_modified := mtime f,
                content_length := e - s + 1,
                data := View (drop s bytes), is_partial_content := True, range_start := s,
                range_end := e, total_size := length (content f)\<rparr>
          | None \<Rightarrow> new_ServeResult\<lparr>status := RANGE_NOT_SATISFIABLE\<rparr>))
    \<and> (is_number ds \<and> is_number de \<and> n < 2 ^ 64 \<longrightarrow>
         parse_range_header (''bytes='' @ ds @ ''-'' @ de) n
           = (if digits_value ds \<le> digits_value de \<and> digits_value de < n
              then Some (digits_value ds, digits_value de) else None)
         \<and> parse_range_header (''bytes='' @ ds @ ''-'') n
           = (if digits_value ds < n then Some (digits_value ds, n - 1) else None)
         \<and> parse_range_header (''bytes=-'' @ de) n
           = (if 0 < digits_value de \<and> digits_value de < 2 ^ 64 \<and> 0 < n
              then Some (n - min (digits_value de) n, n - 1) else None))
    \<and> (is_number ds \<and> is_number de \<and> \<not> is_digit c \<longrightarrow>
         parse_range_header (''bytes='' @ ds @ ''-'' @ de @ c # rest) n
           = parse_range_header (''bytes='' @ ds @ ''-'' @ de) n)"
proof (intro conjI impI)
  show "\<exists>ctype. fst (serve_file pf fs now elapsed request_path hdrs h)
       = (case parse_range_header rh (length (content f)) of
            Some (s, e) \<Rightarrow>
              new_ServeResult\<lparr>status := SUCCESS, res_content_type := ctype,
                res_etag := generate_etag pf path (mtime f), res_last_modified := mtime f,
                content_length := e - s + 1,
                data := View (drop s bytes), is_partial_content := True, range_start := s,
                range_end := e, total_size := length (content f)\<rparr>
          | None \<Rightarrow> new_ServeResult\<lparr>status := RANGE_NOT_SATISFIABLE\<rparr>)"
    using assms by (rule serve_file_range_result)
next
  assume a: "is_number ds \<and> is_number de \<and> n < 2 ^ 64"
  then show "parse_range_header (''bytes='' @ ds @ ''-'' @ de) n
           = (if digits_value ds \<le> digits_value de \<and> digits_value de < n
              then Some (digits_value ds, digits_value de) else None)"
    using range_full_form [of ds de n] by auto
next
  assume a: "is_number ds \<and> is_number de \<and> n < 2 ^ 64"
  then show "parse_range_header (''bytes='' @ ds @ ''-'') n
           = (if digits_value ds < n then Some (digits_value ds, n - 1) else None)"
    using range_prefix_form [of ds n] by simp
next
  assume a: "is_number ds \<and> is_number de \<and> n < 2 ^ 64"
  then show "parse_range_header (''bytes=-'' @ de) n
           = (if 0 < digits_value de \<and> digits_value de < 2 ^ 64 \<and> 0 < n
              then Some (n - min (digits_value de) n, n - 1) else None)"
    using range_suffix_form [of de n] by simp
next
  assume "is_number ds \<and> is_number de \<and> \<not> is_digit c"
  then show "parse_range_header (''bytes='' @ ds @ ''-'' @ de @ c # rest) n
           = parse_range_header (''bytes='' @ ds @ ''-'' @ de) n"
    using range_trailing [of ds de c rest n] by simp
qed

text \<open>
  The theorem at the header \<open>bytes=2-5xyz\<close> and a file of ten bytes: the header is
  accepted and the bytes 2 to 5 are served.
\<close>

theorem range_request_served_witness:
  "passes_checks sample_platform (one_file ''static/a.txt'' ten_bytes)
     (one_header ''range'' ''bytes=2-5xyz'') scenario_handler ''/static/a.txt'' ''static/a.txt''
     ten_bytes
   \<and> enable_range_requests (config scenario_handler)
   \<and> one_header ''range'' ''bytes=2-5xyz'' ''range'' = Some ''bytes=2-5xyz''
   \<and> mapping_available scenario_handler ''static/a.txt'' ten_bytes ''0123456789''
   \<and> is_number ''2'' \<and> is_number ''5'' \<and> (10::nat) < 2 ^ 64 \<and> \<not> is_digit (CHR ''x'')
   \<and> parse_range_header ''bytes=2-5'' 10 = Some (2, 5)
   \<and> parse_range_header ''bytes=2-'' 10 = Some (2, 9)
   \<and> parse_range_header ''bytes=-5'' 10 = Some (5, 9)
   \<and> parse_range_header ''bytes=2-5xyz'' 10 = Some (2, 5)
   \<and> status (fst (serve_file sample_platform (one_file ''static/a.txt'' ten_bytes) 5 7
        ''/static/a.txt'' (one_header ''range'' ''bytes=2-5xyz'') scenario_handler)) = SUCCESS
   \<and> is_partial_content (fst (serve_file sample_platform (one_file ''static/a.txt'' ten_bytes) 5 7
        ''/static/a.txt'' (one_header ''range'' ''bytes=2-5xyz'') scenario_handler))
   \<and> content_length (fst (serve_file sample_platform (one_file ''static/a.txt'' ten_bytes) 5 7
        ''/static/a.txt'' (one_header ''range'' ''bytes=2-5xyz'') scenario_handler)) = 4
   \<and> data (fst (serve_file sample_platform (one_file ''static/a.txt'' ten_bytes) 5 7
        ''/static/a.txt'' (one_header ''range'' ''bytes=2-5xyz'') scenario_handler))
       = View ''23456789''"
proof -
  have e: "enable_range_requests (config scenario_handler)"
    by (simp add: scenario_handler_fields default_Config_def)
  have r: "one_header ''range'' ''bytes=2-5xyz'' ''range'' = Some ''bytes=2-5xyz''"
    by (simp add: one_header_def)
  have n: "is_number ''2''" "is_number ''5''" "\<not> is_digit (CHR ''x'')"
    by (simp_all add: is_number_def is_digit_def byte_def)
  have v: "digits_value ''2'' = 2" "digits_value ''5'' = 5"
    by (simp_all add: digits_value_def digit_value_def byte_def)
  have l: "length (content ten_bytes) = 10"
    by (simp add: ten_bytes_def)
  note t = range_request_served [OF checks_a_range e r mapping_a,
      of 5 7 "''2''" "''5''" 10 "CHR ''x''" "''yz''"]
  have p: "parse_range_header ''bytes=2-5'' 10 = Some (2, 5)"
    "parse_range_header ''bytes=2-5xyz'' 10 = Some (2, 5)"
    using t n v by simp_all
  show ?thesis
    using t n v checks_a_range [of "''bytes=2-5xyz''"] e r mapping_a
    by (auto simp: l p new_ServeResult_def)
qed

text \<open>
  Malformed headers that are served, each for a file of ten bytes: \<open>bytes=2-5xyz\<close> as
  the range 2 to 5, \<open>bytes=--5\<close> as the whole file (the suffix length is \<open>-5\<close> negated
  modulo \<open>2^64\<close>), \<open>bytes=-1-2\<close> as the last byte, and \<open>bytes= 2-5\<close>, with a blank, as
  the range 2 to 5; \<open>bytes=x2-5\<close> is rejected.
\<close>

theorem range_with_trailing_garbage_served:
  "parse_range_header ''bytes=2-5xyz'' 10 = Some (2, 5)
   \<and> parse_range_header ''bytes=--5'' 10 = Some (0, 9)
   \<and> parse_range_header ''bytes=-1-2'' 10 = Some (9, 9)
   \<and> parse_range_header ''bytes= 2-5'' 10 = Some (2, 5)
   \<and> parse_range_header ''bytes=x2-5'' 10 = None
   \<and> status (fst (serve_file sample_platform (one_file ''static/a.txt'' ten_bytes) 5 7
        ''/static/a.txt'' (one_header ''range'' ''bytes=2-5xyz'') scenario_handler)) = SUCCESS
   \<and> is_partial_content (fst (serve_file sample_platform (one_file ''static/a.txt'' ten_bytes) 5 7
        ''/static/a.txt'' (one_header ''range'' ''bytes=2-5xyz'') scenario_handler))
   \<and> status (fst (serve_file sample_platform (one_file ''static/a.txt'' ten_bytes) 5 7
        ''/static/a.txt'' (one_header ''range'' ''bytes=2-5xyz'') scenario_handler))
       \<noteq> RANGE_NOT_SATISFIABLE"
proof -
  have e: "enable_range_requests (config scenario_handler)"
    by (simp add: scenario_handler_fields default_Config_def)
  have r: "one_header ''range'' ''bytes=2-5xyz'' ''range'' = Some ''bytes=2-5xyz''"
    by (simp add: one_header_def)
  have l: "length (content ten_bytes) = 10"
    by (simp add: ten_bytes_def)
  have m: "parse_range_header ''bytes=--5'' 10 = Some (0, 9)"
    "parse_range_header ''bytes=-1-2'' 10 = Some (9, 9)"
    "parse_range_header ''bytes= 2-5'' 10 = Some (2, 5)"
    "parse_range_header ''bytes=x2-5'' 10 = None"
    by (simp_all add: parse_range_header_def starts_with_def Let_def range_bounds_def stoull_def
        is_space_def is_digit_def byte_def digits_value_def digit_value_def size_sub_def)
  show ?thesis
    using serve_file_range_result [OF checks_a_range e r mapping_a, of 5 7]
    by (auto simp: l m range_garbage new_ServeResult_def)
qed


subsection \<open>The compressed form of a cache entry\<close>


lemma map_of_umap_assign [simp]: "map_of (umap_assign m k v) k = Some v"
  by (simp add: umap_assign_def update_conv')


lemma stats_evict_loop [simp]: "stats (evict_loop es freed needed h) = stats h"
  by (induction es freed needed h rule: evict_loop.induct) (auto simp: Let_def split: option.splits)

lemma stats_cache_file [simp]: "stats (cache_file h path entry) = stats h"
  by (simp add: cache_file_def evict_lru_entries_def Let_def)











lemma default_limits:
  "max_file_bytes default_Config = 104857600"
  "max_cache_bytes default_Config = 536870912"
  by (simp_all add: max_file_bytes_def max_cache_bytes_def default_Config_def)

lemma serve_file_miss:
  assumes "passes_checks pf fs hdrs h request_path path f"
    and "hdrs ''range'' = None"
    and "map_of (cache h) path = None"
    and "length (content f) \<le> max_file_bytes (config h)"
    and "map_file f = Some bytes"
    and "entry = \<lparr>file_path = path, content_type = get_mime_type path,
             etag = generate_etag pf path (mtime f),
             last_modified = mtime f, file_size = length (content f),
             mapped_data = Some bytes, mapped_size = length bytes, last_accessed = 0,
             access_count = 0, is_compressed = False, compressed_data = []\<rparr>"
  shows "serve_file pf fs now elapsed request_path hdrs h
       = serve_body pf now elapsed hdrs path (mtime f) (generate_etag pf path (mtime f)) entry True
           (new_ServeResult\<lparr>content_length := length (content f), data := View bytes\<rparr>)
           ((cache_file h path entry)\<lparr>stats := (stats (cache_file h path entry))
               \<lparr>cache_misses := cache_misses (stats (cache_file h path entry)) + 1\<rparr>\<rparr>)"
  unfolding serve_file_lookup [OF assms(1)]
  using assms(2-6)
  by (simp add: serve_lookup_def get_cached_file_absent Let_def serve_range_def ptr_of_def)













subsection \<open>The size of the cache\<close>

lemma small_cache_handler_fields:
  "config small_cache_handler = default_Config\<lparr>max_cache_size_mb := 1\<rparr>"
  "routes small_cache_handler = [(''/static'', ''./static'')]"
  "cache small_cache_handler = []"
  "current_cache_size small_cache_handler = 0"
  by (simp_all add: small_cache_handler_def add_route_def new_StaticFileHandler_def umap_assign_def)

lemma checks_big:
  "passes_checks sample_platform (one_file ''static/a.txt'' two_megabytes) no_headers
     small_cache_handler ''/static/a.txt'' ''static/a.txt'' two_megabytes"
  by (simp add: passes_checks_def resolve_static_a not_forbidden_a small_cache_handler_fields
      default_Config_def one_file_def no_headers_def)

lemma cache_file_empty:
  assumes "cache h = []"
  shows "cache (cache_file h path e) = [(path, e)]"
    and "current_cache_size (cache_file h path e) = current_cache_size h + file_size e"
  using assms
  by (simp_all add: cache_file_def evict_lru_entries_def umap_assign_def Let_def)

lemma serve_body_cache:
  "cache (snd (serve_body pf now elapsed hdrs path modified tag entry True res h))
     = umap_assign (cache h) path
         ((if should_compress (config h) (content_type entry) (content_length res)
              \<and> accepts_gzip hdrs \<and> \<not> is_partial_content res \<and> compressed_data entry = []
           then entry\<lparr>compressed_data := compress_content pf (data res) (content_length res),
                  is_compressed := True\<rparr>
           else entry)\<lparr>last_accessed := now, access_count := access_count entry + 1\<rparr>)"
  "current_cache_size (snd (serve_body pf now elapsed hdrs path modified tag entry cached res h))
     = current_cache_size h"
  "config (snd (serve_body pf now elapsed hdrs path modified tag entry cached res h)) = config h"
  by (simp_all add: serve_body_def finish_def Let_def)

text \<open>One request for a file of two megabytes with a cache limit of one megabyte.\<close>

lemma two_megabytes_cached:
  "cached_bytes (serve_all sample_platform [big_request] small_cache_handler) = 2097152
   \<and> current_cache_size (serve_all sample_platform [big_request] small_cache_handler) = 2097152
   \<and> max_cache_bytes (config (serve_all sample_platform [big_request] small_cache_handler))
       = 1048576"
proof -
  let ?e = "\<lparr>file_path = ''static/a.txt'', content_type = get_mime_type ''static/a.txt'',
             etag = generate_etag sample_platform ''static/a.txt'' 1000,
             last_modified = 1000, file_size = 2097152,
             mapped_data = Some (replicate 2097152 (CHR ''x'')), mapped_size = 2097152,
             last_accessed = 0, access_count = 0, is_compressed = False,
             compressed_data = []\<rparr>"
  have p: "mtime two_megabytes = 1000" "length (content two_megabytes) = 2097152"
    "map_file two_megabytes = Some (replicate 2097152 (CHR ''x''))"
    by (simp_all add: two_megabytes_def map_file_def)
  have n: "no_headers ''range'' = None"
    by (simp add: no_headers_def)
  have "serve_file sample_platform (one_file ''static/a.txt'' two_megabytes) 5 7
     ''/static/a.txt'' no_headers small_cache_handler
     = serve_body sample_platform 5 7 no_headers ''static/a.txt'' 1000
         (generate_etag sample_platform ''static/a.txt'' 1000) ?e True
         (new_ServeResult\<lparr>content_length := 2097152, data := View (replicate 2097152 (CHR ''x''))\<rparr>)
         ((cache_file small_cache_handler ''static/a.txt'' ?e)
            \<lparr>stats := (stats (cache_file small_cache_handler ''static/a.txt'' ?e))
               \<lparr>cache_misses := cache_misses (stats (cache_file small_cache_handler ''static/a.txt'' ?e)) + 1\<rparr>\<rparr>)"
    using serve_file_miss [OF checks_big n, of "replicate 2097152 (CHR ''x'')" ?e 5 7]
    by (simp add: small_cache_handler_fields max_file_bytes_def default_Config_def p)
  then show ?thesis
    by (simp add: big_request_def serve_body_cache cache_file_empty small_cache_handler_fields
        cached_bytes_def umap_assign_def max_cache_bytes_def default_Config_def
        accepts_gzip_def no_headers_def)
qed

text \<open>What each step of \<open>serve_file\<close> does to the index and to \<open>current_cache_size\<close>.\<close>

lemma size_sub_exact:
  assumes "b \<le> a" "a < 2 ^ 64"
  shows "size_sub a b = a - b"
proof -
  have b: "b mod 2 ^ 64 = b"
    using assms by simp
  have "(a + 2 ^ 64 - b) mod 2 ^ 64 = ((a - b) + 2 ^ 64) mod (2 ^ 64 :: nat)"
    using assms(1) by simp
  also have "\<dots> = (a - b) mod 2 ^ 64"
    by (rule mod_add_self2)
  also have "\<dots> = a - b"
    using assms(2) by simp
  finally show ?thesis
    using b by (simp add: size_sub_def)
qed

lemma delete_absent: "map_of m k = None \<Longrightarrow> AList.delete k m = m"
  by (induction m) (auto simp: AList.delete_eq split: if_splits)

lemma sum_delete:
  "distinct (map fst m) \<Longrightarrow> map_of m k = Some e \<Longrightarrow>
   sum_list (map (\<lambda>p. file_size (snd p)) (AList.delete k m)) + file_size e
     = sum_list (map (\<lambda>p. file_size (snd p)) m)"
proof (induction m)
  case Nil
  then show ?case by simp
next
  case (Cons a m)
  show ?case
  proof (cases "fst a = k")
    case True
    with Cons.prems have "map_of m k = None" "snd a = e"
      by (auto simp: map_of_eq_None_iff)
    with True show ?thesis
      by (cases a) (simp add: delete_absent)
  next
    case False
    with Cons show ?thesis
      by (cases a) auto
  qed
qed

lemma sum_update_same:
  "map_of m k = Some e \<Longrightarrow> file_size v = file_size e \<Longrightarrow>
   sum_list (map (\<lambda>p. file_size (snd p)) (AList.update k v m))
     = sum_list (map (\<lambda>p. file_size (snd p)) m)"
  by (induction m) (auto split: if_splits)

lemma update_absent: "map_of m k = None \<Longrightarrow> AList.update k v m = m @ [(k, v)]"
  by (induction m) (auto split: if_splits)

lemma map_of_delete_other:
  "map_of m p = None \<Longrightarrow> map_of (AList.delete k m) p = None"
  by (simp add: delete_conv')

lemma cached_bytes_delete:
  assumes "cache_sum_ok h" "current_cache_size h < 2 ^ 64" "map_of (cache h) path = Some entry"
  shows "cache_sum_ok (h\<lparr>cache := AList.delete path (cache h),
            current_cache_size := size_sub (current_cache_size h) (file_size entry)\<rparr>)"
    and "size_sub (current_cache_size h) (file_size entry)
           = current_cache_size h - file_size entry"
    and "file_size entry \<le> current_cache_size h"
proof -
  have s: "sum_list (map (\<lambda>p. file_size (snd p)) (AList.delete path (cache h))) + file_size entry
        = current_cache_size h"
    using assms(1) assms(3) by (simp add: cache_sum_ok_def cached_bytes_def sum_delete)
  then show le: "file_size entry \<le> current_cache_size h"
    by linarith
  show e: "size_sub (current_cache_size h) (file_size entry)
           = current_cache_size h - file_size entry"
    using le assms(2) by (rule size_sub_exact)
  show "cache_sum_ok (h\<lparr>cache := AList.delete path (cache h),
            current_cache_size := size_sub (current_cache_size h) (file_size entry)\<rparr>)"
    using assms(1) s by (simp add: cache_sum_ok_def cached_bytes_def e distinct_delete)
qed

lemma get_cached_file_inv:
  assumes "cache_sum_ok h" "current_cache_size h < 2 ^ 64"
  shows "cache_sum_ok (snd (get_cached_file fs h path))"
    and "current_cache_size (snd (get_cached_file fs h path)) \<le> current_cache_size h"
    and "config (snd (get_cached_file fs h path)) = config h"
    and "map_of (cache (snd (get_cached_file fs h path))) path = fst (get_cached_file fs h path)"
proof -
  show "cache_sum_ok (snd (get_cached_file fs h path))"
    using assms cached_bytes_delete(1) [OF assms]
    by (auto simp: get_cached_file_def split: option.splits)
  show "current_cache_size (snd (get_cached_file fs h path)) \<le> current_cache_size h"
    using cached_bytes_delete(2) [OF assms]
    by (auto simp: get_cached_file_def split: option.splits)
  show "config (snd (get_cached_file fs h path)) = config h"
    by (auto simp: get_cached_file_def split: option.splits)
  show "map_of (cache (snd (get_cached_file fs h path))) path = fst (get_cached_file fs h path)"
    by (auto simp: get_cached_file_def delete_conv' split: option.splits)
qed


lemma evict_loop_inv:
  assumes "cache_sum_ok h" "current_cache_size h < 2 ^ 64"
  shows "cache_sum_ok (evict_loop es freed needed h)
       \<and> current_cache_size (evict_loop es freed needed h) \<le> current_cache_size h
       \<and> (\<forall>p. map_of (cache h) p = None \<longrightarrow> map_of (cache (evict_loop es freed needed h)) p = None)
       \<and> (needed \<le> freed + (current_cache_size h - current_cache_size (evict_loop es freed needed h))
          \<or> (\<forall>p \<in> snd ` set es. map_of (cache (evict_loop es freed needed h)) p = None))"
  using assms
proof (induction es freed needed h rule: evict_loop.induct)
  case (1 freed_bytes bytes_needed h)
  then show ?case
    by simp
next
  case (2 t path rest freed_bytes bytes_needed h)
  show ?case
  proof (cases "map_of (cache h) path")
    case None
    from "2.IH"(1) [OF None "2.prems"] None show ?thesis
      by auto
  next
    case (Some entry)
    let ?h = "h\<lparr>cache := AList.delete path (cache h),
                 current_cache_size := size_sub (current_cache_size h) (file_size entry)\<rparr>"
    note d = cached_bytes_delete [OF "2.prems" Some]
    have ok: "cache_sum_ok ?h"
      by (rule d(1))
    have cur: "current_cache_size ?h = current_cache_size h - file_size entry"
      using d(2) by simp
    have le: "file_size entry \<le> current_cache_size h"
      by (rule d(3))
    have none: "\<And>p. map_of (cache h) p = None \<Longrightarrow> map_of (cache ?h) p = None"
      by (simp add: delete_conv')
    have gone: "map_of (cache ?h) path = None"
      by (simp add: delete_conv')
    show ?thesis
    proof (cases "freed_bytes + file_size entry \<ge> bytes_needed")
      case True
      then have r: "evict_loop ((t, path) # rest) freed_bytes bytes_needed h = ?h"
        using Some by (simp add: Let_def)
      show ?thesis
        unfolding r using ok cur le none True by auto
    next
      case False
      then have r: "evict_loop ((t, path) # rest) freed_bytes bytes_needed h
          = evict_loop rest (freed_bytes + file_size entry) bytes_needed ?h"
        using Some by (simp add: Let_def)
      have lt: "current_cache_size ?h < 2 ^ 64"
        using cur "2.prems"(2) by simp
      note ih = "2.IH"(2) [OF Some refl refl False ok lt]
      show ?thesis
        unfolding r using ih cur le none gone
        by (auto simp del: evict_loop.simps)
    qed
  qed
qed


lemma set_insert_entry: "set (insert_entry a bs) = insert a (set bs)"
  by (induction bs) auto

lemma set_sort_entries: "set (sort_entries es) = set es"
  by (induction es) (auto simp: set_insert_entry)

lemma map_of_all_None: "(\<forall>p \<in> fst ` set m. map_of m p = None) \<Longrightarrow> m = []"
  by (cases m) auto

lemma evict_lru_entries_inv:
  assumes "cache_sum_ok h" "current_cache_size h < 2 ^ 64"
  shows "cache_sum_ok (evict_lru_entries h needed)"
    and "current_cache_size (evict_lru_entries h needed) \<le> current_cache_size h"
    and "map_of (cache h) p = None \<Longrightarrow> map_of (cache (evict_lru_entries h needed)) p = None"
    and "current_cache_size (evict_lru_entries h needed) + needed \<le> current_cache_size h
         \<or> current_cache_size (evict_lru_entries h needed) = 0"
    and "config (evict_lru_entries h needed) = config h"
proof -
  let ?es = "sort_entries (map (\<lambda>p. (last_accessed (snd p), fst p)) (cache h))"
  let ?h = "evict_loop ?es 0 needed h"
  note i = evict_loop_inv [OF assms, of ?es 0 needed]
  have keys: "snd ` set ?es = fst ` set (cache h)"
    by (simp add: set_sort_entries image_image)
  show ok: "cache_sum_ok (evict_lru_entries h needed)"
    using i by (simp add: evict_lru_entries_def)
  show le: "current_cache_size (evict_lru_entries h needed) \<le> current_cache_size h"
    using i by (simp add: evict_lru_entries_def)
  show "map_of (cache h) p = None \<Longrightarrow> map_of (cache (evict_lru_entries h needed)) p = None"
    using i by (simp add: evict_lru_entries_def)
  show "config (evict_lru_entries h needed) = config h"
    by (simp add: evict_lru_entries_def)
  from i consider "needed \<le> current_cache_size h - current_cache_size ?h"
    | "\<forall>p \<in> snd ` set ?es. map_of (cache ?h) p = None"
    by auto
  then show "current_cache_size (evict_lru_entries h needed) + needed \<le> current_cache_size h
         \<or> current_cache_size (evict_lru_entries h needed) = 0"
  proof cases
    case 1
    moreover have "current_cache_size ?h \<le> current_cache_size h"
      using i by simp
    ultimately show ?thesis
      unfolding evict_lru_entries_def by linarith
  next
    case 2
    have "map_of (cache ?h) p = None" for p
    proof (cases "map_of (cache h) p")
      case None
      then show ?thesis
        using i by simp
    next
      case (Some e)
      then have "(p, e) \<in> set (cache h)"
        by (rule map_of_SomeD)
      then have mem: "p \<in> fst ` set (cache h)"
        by force
      have "\<forall>q \<in> fst ` set (cache h). map_of (cache ?h) q = None"
        using 2 unfolding keys .
      then show ?thesis
        using mem by (rule bspec)
    qed
    then have "cache ?h = []"
      by (intro map_of_all_None) simp
    then have "current_cache_size ?h = 0"
      using i by (simp add: cache_sum_ok_def cached_bytes_def)
    then show ?thesis
      by (simp add: evict_lru_entries_def)
  qed
qed

lemma cache_file_inv:
  assumes "cache_sum_ok h" "current_cache_size h < 2 ^ 64" "map_of (cache h) path = None"
  shows "cache_sum_ok (cache_file h path e)"
    and "map_of (cache (cache_file h path e)) path = Some e"
    and "config (cache_file h path e) = config h"
    and "current_cache_size h \<le> max_cache_bytes (config h)
         \<Longrightarrow> file_size e \<le> max_cache_bytes (config h)
         \<Longrightarrow> current_cache_size (cache_file h path e) \<le> max_cache_bytes (config h)"
proof -
  let ?h = "if current_cache_size h + file_size e > max_cache_bytes (config h)
            then evict_lru_entries h (file_size e) else h"
  note v = evict_lru_entries_inv [OF assms(1) assms(2)]
  have ok: "cache_sum_ok ?h"
    using v(1) assms(1) by simp
  have none: "map_of (cache ?h) path = None"
    using v(3) [OF assms(3)] assms(3) by simp
  have r: "cache_file h path e
        = ?h\<lparr>cache := cache ?h @ [(path, e)],
             current_cache_size := current_cache_size ?h + file_size e\<rparr>"
    using none by (simp add: cache_file_def Let_def umap_assign_def update_absent)
  have fresh: "path \<notin> fst ` set (cache ?h)"
    using none by (simp add: map_of_eq_None_iff)
  show "cache_sum_ok (cache_file h path e)"
    unfolding r using ok fresh by (simp add: cache_sum_ok_def cached_bytes_def)
  show "map_of (cache (cache_file h path e)) path = Some e"
    unfolding r using none by (simp add: map_add_def)
  show "config (cache_file h path e) = config h"
    unfolding r using v(5) by simp
  show "current_cache_size (cache_file h path e) \<le> max_cache_bytes (config h)"
    if "current_cache_size h \<le> max_cache_bytes (config h)"
      "file_size e \<le> max_cache_bytes (config h)"
    unfolding r using that v(4) [of "file_size e"] by auto
qed


lemma cache_sum_ok_stats [simp]: "cache_sum_ok (h\<lparr>stats := st\<rparr>) = cache_sum_ok h"
  by (simp add: cache_sum_ok_def cached_bytes_def)

lemma cache_sum_ok_touch:
  assumes "cache_sum_ok h" "map_of (cache h) path = Some e" "file_size v = file_size e"
  shows "cache_sum_ok (h\<lparr>cache := umap_assign (cache h) path v\<rparr>)"
  using assms
  by (simp add: cache_sum_ok_def cached_bytes_def umap_assign_def distinct_update sum_update_same)

lemma serve_body_inv:
  assumes "cache_sum_ok h"
    and "cached \<longrightarrow> (\<exists>e. map_of (cache h) path = Some e \<and> file_size e = file_size entry)"
  shows "cache_sum_ok (snd (serve_body pf now elapsed hdrs path modified tag entry cached res h))"
    and "current_cache_size (snd (serve_body pf now elapsed hdrs path modified tag entry cached res h))
         = current_cache_size h"
    and "config (snd (serve_body pf now elapsed hdrs path modified tag entry cached res h)) = config h"
proof -
  show "cache_sum_ok (snd (serve_body pf now elapsed hdrs path modified tag entry cached res h))"
  proof (cases cached)
    case True
    with assms(2) obtain e where e: "map_of (cache h) path = Some e" "file_size e = file_size entry"
      by blast
    have t: "cache_sum_ok (h\<lparr>cache := umap_assign (cache h) path v\<rparr>)"
      if "file_size v = file_size entry" for v
      using assms(1) e(1) that e(2) by (simp add: cache_sum_ok_touch)
    show ?thesis
      using True
      by (simp add: serve_body_def finish_def Let_def t)
  next
    case False
    then show ?thesis
      using assms(1) by (simp add: serve_body_def finish_def Let_def)
  qed
  show "current_cache_size (snd (serve_body pf now elapsed hdrs path modified tag entry cached res h))
         = current_cache_size h"
    by (simp add: serve_body_def finish_def Let_def)
  show "config (snd (serve_body pf now elapsed hdrs path modified tag entry cached res h)) = config h"
    by (simp add: serve_body_def finish_def Let_def)
qed


lemma serve_range_inv:
  assumes "cache_sum_ok h"
    and "cached \<longrightarrow> (\<exists>e. map_of (cache h) path = Some e \<and> file_size e = file_size entry)"
  shows "cache_sum_ok (snd (serve_range pf now elapsed hdrs path fsize modified tag entry cached h))"
    and "current_cache_size (snd (serve_range pf now elapsed hdrs path fsize modified tag entry cached h))
         = current_cache_size h"
    and "config (snd (serve_range pf now elapsed hdrs path fsize modified tag entry cached h)) = config h"
proof -
  let ?h = "h\<lparr>stats := (stats h)\<lparr>range_requests := range_requests (stats h) + 1\<rparr>\<rparr>"
  have a: "cache_sum_ok ?h"
    "cached \<longrightarrow> (\<exists>e. map_of (cache ?h) path = Some e \<and> file_size e = file_size entry)"
    using assms by simp_all
  note b = serve_body_inv [OF assms] serve_body_inv [OF a, simplified]
  show "cache_sum_ok (snd (serve_range pf now elapsed hdrs path fsize modified tag entry cached h))"
    using assms(1) by (simp add: serve_range_def b split: option.splits)
  show "current_cache_size (snd (serve_range pf now elapsed hdrs path fsize modified tag entry cached h))
         = current_cache_size h"
    by (simp add: serve_range_def b split: option.splits)
  show "config (snd (serve_range pf now elapsed hdrs path fsize modified tag entry cached h)) = config h"
    by (simp add: serve_range_def b split: option.splits)
qed

lemma serve_lookup_inv:
  assumes "cache_sum_ok h" "current_cache_size h < 2 ^ 64"
  shows "cache_sum_ok (snd (serve_lookup pf fs now elapsed hdrs path f tag h))"
    and "config (snd (serve_lookup pf fs now elapsed hdrs path f tag h)) = config h"
    and "current_cache_size h \<le> max_cache_bytes (config h)
         \<Longrightarrow> max_file_bytes (config h) \<le> max_cache_bytes (config h)
         \<Longrightarrow> current_cache_size (snd (serve_lookup pf fs now elapsed hdrs path f tag h))
             \<le> max_cache_bytes (config h)"
proof -
  obtain found h1 where g: "get_cached_file fs h path = (found, h1)"
    by (cases "get_cached_file fs h path")
  note gi = get_cached_file_inv [OF assms, of fs path, unfolded g, simplified]
  let ?hit = "h1\<lparr>stats := (stats h1)\<lparr>cache_hits := cache_hits (stats h1) + 1\<rparr>\<rparr>"
  let ?miss = "h1\<lparr>stats := (stats h1)\<lparr>cache_misses := cache_misses (stats h1) + 1\<rparr>\<rparr>"
  let ?entry = "\<lparr>file_path = path, content_type = get_mime_type path, etag = tag,
                 last_modified = mtime f, file_size = length (content f), mapped_data = None,
                 mapped_size = 0, last_accessed = 0, access_count = 0,
                 is_compressed = False, compressed_data = []\<rparr>"
  have lt: "current_cache_size h1 < 2 ^ 64"
    using gi(2) assms(2) by simp
  have res: "cache_sum_ok (snd (serve_lookup pf fs now elapsed hdrs path f tag h))
       \<and> config (snd (serve_lookup pf fs now elapsed hdrs path f tag h)) = config h
       \<and> (current_cache_size h \<le> max_cache_bytes (config h)
            \<longrightarrow> max_file_bytes (config h) \<le> max_cache_bytes (config h)
            \<longrightarrow> current_cache_size (snd (serve_lookup pf fs now elapsed hdrs path f tag h))
                 \<le> max_cache_bytes (config h))"
  proof (cases found)
    case (Some entry)
    have r: "serve_lookup pf fs now elapsed hdrs path f tag h
        = serve_range pf now elapsed hdrs path (length (content f)) (mtime f) tag entry True ?hit"
      using Some by (simp add: serve_lookup_def g Let_def)
    have a: "cache_sum_ok ?hit"
      "True \<longrightarrow> (\<exists>e. map_of (cache ?hit) path = Some e \<and> file_size e = file_size entry)"
      using gi Some by simp_all
    show ?thesis
      unfolding r using serve_range_inv [OF a] gi by simp
  next
    case None
    show ?thesis
    proof (cases "length (content f) \<le> max_file_bytes (config h1)")
      case small: True
      show ?thesis
      proof (cases "map_file f")
        case no_map: None
        have r: "serve_lookup pf fs now elapsed hdrs path f tag h
            = (new_ServeResult\<lparr>status := INTERNAL_ERROR\<rparr>, h1)"
          using None small no_map by (simp add: serve_lookup_def g Let_def)
        show ?thesis
          unfolding r using gi by simp
      next
        case (Some bytes)
        let ?mapped = "?entry\<lparr>mapped_data := Some bytes, mapped_size := length bytes\<rparr>"
        let ?h2 = "cache_file h1 path ?mapped"
        let ?h3 = "?h2\<lparr>stats := (stats ?h2)\<lparr>cache_misses := cache_misses (stats ?h2) + 1\<rparr>\<rparr>"
        have r: "serve_lookup pf fs now elapsed hdrs path f tag h
            = serve_range pf now elapsed hdrs path (length (content f)) (mtime f) tag ?mapped True ?h3"
          using None small Some by (simp add: serve_lookup_def g Let_def)
        have absent: "map_of (cache h1) path = None"
          using gi(4) None by simp
        note c = cache_file_inv [OF gi(1) lt absent, of ?mapped]
        have a: "cache_sum_ok ?h3"
          "True \<longrightarrow> (\<exists>e. map_of (cache ?h3) path = Some e \<and> file_size e = file_size ?mapped)"
          using c by simp_all
        have bound: "current_cache_size ?h3 \<le> max_cache_bytes (config h)"
          if "current_cache_size h \<le> max_cache_bytes (config h)"
            "max_file_bytes (config h) \<le> max_cache_bytes (config h)"
        proof -
          have "current_cache_size h1 \<le> max_cache_bytes (config h1)"
            using that(1) gi(2) gi(3) by simp
          moreover have "file_size ?mapped \<le> max_cache_bytes (config h1)"
            using small that(2) gi(3) by simp
          ultimately have "current_cache_size ?h2 \<le> max_cache_bytes (config h1)"
            by (rule c(4))
          then show ?thesis
            using gi(3) by simp
        qed
        show ?thesis
          unfolding r using serve_range_inv [OF a] c(3) gi(3) bound by simp
      qed
    next
      case large: False
      have r: "serve_lookup pf fs now elapsed hdrs path f tag h
          = serve_range pf now elapsed hdrs path (length (content f)) (mtime f) tag ?entry False ?miss"
        using None large by (simp add: serve_lookup_def g Let_def)
      have a: "cache_sum_ok ?miss"
        "False \<longrightarrow> (\<exists>e. map_of (cache ?miss) path = Some e \<and> file_size e = file_size ?entry)"
        using gi by simp_all
      show ?thesis
        unfolding r using serve_range_inv [OF a] gi by simp
    qed
  qed
  show "cache_sum_ok (snd (serve_lookup pf fs now elapsed hdrs path f tag h))"
    using res by simp
  show "config (snd (serve_lookup pf fs now elapsed hdrs path f tag h)) = config h"
    using res by simp
  show "current_cache_size (snd (serve_lookup pf fs now elapsed hdrs path f tag h))
             \<le> max_cache_bytes (config h)"
    if "current_cache_size h \<le> max_cache_bytes (config h)"
      "max_file_bytes (config h) \<le> max_cache_bytes (config h)"
    using res that by simp
qed


lemma serve_file_inv:
  assumes "cache_sum_ok h" "current_cache_size h < 2 ^ 64"
  shows "cache_sum_ok (snd (serve_file pf fs now elapsed request_path hdrs h))"
    and "config (snd (serve_file pf fs now elapsed request_path hdrs h)) = config h"
    and "current_cache_size h \<le> max_cache_bytes (config h)
         \<Longrightarrow> max_file_bytes (config h) \<le> max_cache_bytes (config h)
         \<Longrightarrow> current_cache_size (snd (serve_file pf fs now elapsed request_path hdrs h))
             \<le> max_cache_bytes (config h)"
proof -
  note l = serve_lookup_inv [OF assms]
  show "cache_sum_ok (snd (serve_file pf fs now elapsed request_path hdrs h))"
    using assms(1)
    by (simp add: serve_file_def not_modified_def finish_def Let_def l(1)
        split: sum.splits option.splits)
  show "config (snd (serve_file pf fs now elapsed request_path hdrs h)) = config h"
    by (simp add: serve_file_def not_modified_def finish_def Let_def l(2)
        split: sum.splits option.splits)
  show "current_cache_size (snd (serve_file pf fs now elapsed request_path hdrs h))
             \<le> max_cache_bytes (config h)"
    if "current_cache_size h \<le> max_cache_bytes (config h)"
      "max_file_bytes (config h) \<le> max_cache_bytes (config h)"
    using that l(3) [OF that]
    by (simp add: serve_file_def not_modified_def finish_def Let_def
        split: sum.splits option.splits)
qed

lemma cache_within_limit_serve_file:
  assumes "cache_within_limit h"
    and "max_file_bytes (config h) \<le> max_cache_bytes (config h)"
    and "max_cache_bytes (config h) < 2 ^ 64"
  shows "cache_within_limit (snd (serve_file pf fs now elapsed request_path hdrs h))"
proof -
  have ok: "cache_sum_ok h" and le: "current_cache_size h \<le> max_cache_bytes (config h)"
    using assms(1) by (simp_all add: cache_within_limit_def)
  have lt: "current_cache_size h < 2 ^ 64"
    using le assms(3) by simp
  show ?thesis
    using serve_file_inv(1) [OF ok lt] serve_file_inv(2) [OF ok lt]
      serve_file_inv(3) [OF ok lt le assms(2)]
    by (simp add: cache_within_limit_def)
qed

lemma cache_within_limit_serve_all:
  assumes "cache_within_limit h"
    and "max_file_bytes (config h) \<le> max_cache_bytes (config h)"
    and "max_cache_bytes (config h) < 2 ^ 64"
  shows "cache_within_limit (serve_all pf rs h) \<and> config (serve_all pf rs h) = config h"
  using assms
proof (induction rs arbitrary: h)
  case Nil
  then show ?case
    by simp
next
  case (Cons r rs)
  let ?h = "snd (serve_file pf (req_fs r) (req_now r) (req_elapsed r) (req_path r) (req_headers r) h)"
  have ok: "cache_sum_ok h" and le: "current_cache_size h \<le> max_cache_bytes (config h)"
    using Cons.prems(1) by (simp_all add: cache_within_limit_def)
  have lt: "current_cache_size h < 2 ^ 64"
    using le Cons.prems(3) by simp
  have c: "config ?h = config h"
    using ok lt by (rule serve_file_inv(2))
  have w: "cache_within_limit ?h"
    using Cons.prems by (rule cache_within_limit_serve_file)
  show ?case
    using Cons.IH [of ?h] w c Cons.prems(2) Cons.prems(3) by simp
qed

lemma cache_within_limit_new:
  "cache_within_limit (new_StaticFileHandler cfg)"
  "cache_within_limit h \<Longrightarrow> cache_within_limit (add_route h url_path local_path)"
  by (simp_all add: cache_within_limit_def cache_sum_ok_def cached_bytes_def
      new_StaticFileHandler_def add_route_def)

text \<open>
  Claim C2, as the code behaves. From a handler whose index adds up to
  \<open>current_cache_size\<close> within the limit (a new handler is one), every sequence of
  \<open>serve_file\<close> calls keeps the sum of \<open>file_size\<close> over the index equal to
  \<open>current_cache_size\<close> and at most \<open>max_cache_bytes\<close>, provided that the file limit is not
  above the cache limit (and the cache limit is below \<open>2^63\<close>, so that no sum of two
  sizes wraps). Without that provision the
  bound fails: with a cache limit of one megabyte and the default file limit, one request
  for a file of two megabytes leaves \<open>current_cache_size\<close>, still the sum over the index,
  at two megabytes. \<open>evict_lru_entries\<close> frees what it can, and \<open>cache_file\<close> inserts the
  entry whatever was freed.
\<close>

theorem cache_limit_kept_up_to_file_limit:
  "(cache_within_limit h \<and> max_file_bytes (config h) \<le> max_cache_bytes (config h)
      \<and> max_cache_bytes (config h) < 2 ^ 63
    \<longrightarrow> cached_bytes (serve_all pf rs h) = current_cache_size (serve_all pf rs h)
      \<and> current_cache_size (serve_all pf rs h) \<le> max_cache_bytes (config (serve_all pf rs h)))
   \<and> cache_within_limit small_cache_handler
   \<and> cached_bytes (serve_all sample_platform [big_request] small_cache_handler) = 2097152
   \<and> current_cache_size (serve_all sample_platform [big_request] small_cache_handler) = 2097152
   \<and> max_cache_bytes (config (serve_all sample_platform [big_request] small_cache_handler))
       = 1048576"
proof (intro conjI impI)
  assume a: "cache_within_limit h \<and> max_file_bytes (config h) \<le> max_cache_bytes (config h)
      \<and> max_cache_bytes (config h) < 2 ^ 63"
  then have "max_cache_bytes (config h) < 2 ^ 64"
    by simp
  with a have "cache_within_limit (serve_all pf rs h)"
    by (simp add: cache_within_limit_serve_all)
  then show "cached_bytes (serve_all pf rs h) = current_cache_size (serve_all pf rs h)"
    and "current_cache_size (serve_all pf rs h) \<le> max_cache_bytes (config (serve_all pf rs h))"
    by (simp_all add: cache_within_limit_def cache_sum_ok_def)
next
  show "cache_within_limit small_cache_handler"
    by (simp add: small_cache_handler_def cache_within_limit_new)
qed (simp_all add: two_megabytes_cached del: serve_all.simps)

text \<open>
  The theorem at the handler with the default limits (100 and 512 megabytes) and two
  requests for \<open>page.html\<close>.
\<close>

theorem cache_limit_kept_up_to_file_limit_witness:
  "cache_within_limit scenario_handler
   \<and> max_file_bytes (config scenario_handler) \<le> max_cache_bytes (config scenario_handler)
   \<and> max_cache_bytes (config scenario_handler) < 2 ^ 63
   \<and> cached_bytes (serve_all sample_platform [page_request, page_request] scenario_handler)
       = current_cache_size (serve_all sample_platform [page_request, page_request] scenario_handler)
   \<and> current_cache_size (serve_all sample_platform [page_request, page_request] scenario_handler)
       \<le> max_cache_bytes (config (serve_all sample_platform [page_request, page_request]
            scenario_handler))"
proof -
  have w: "cache_within_limit scenario_handler"
    by (simp add: scenario_handler_def cache_within_limit_new)
  have l: "max_file_bytes (config scenario_handler) \<le> max_cache_bytes (config scenario_handler)"
    "max_cache_bytes (config scenario_handler) < 2 ^ 63"
    by (simp_all add: scenario_handler_fields default_limits)
  show ?thesis
    using cache_limit_kept_up_to_file_limit
      [of scenario_handler sample_platform "[page_request, page_request]"] w l
    by (simp del: serve_all.simps)
qed

end
